theory Spec2Isabelle
  imports Main "HOL-Library.Word"
begin

unbundle bit_operations_syntax

section \<open>The Atari keyboard driver (sys/arch/atari/dev/kbd.c)\<close>

text \<open>
  The driver is embedded for the full configuration (\<open>NMOUSE > 0\<close>, \<open>NITE > 0\<close>,
  \<open>NWSKBD > 0\<close>), in which every conditional block of the file is compiled.
  \<open>uint8_t\<close> is \<open>8 word\<close>; \<open>u_int\<close> and \<open>int\<close> are \<open>32 word\<close>, with the
  two's-complement wrap-around of the m68k and signed comparisons read through \<open>sint\<close>.
  Calls into other parts of the kernel (\<open>mouse_soft\<close>, \<open>wskbd_input\<close>,
  \<open>ite_filter\<close>, \<open>printf\<close>, \<open>log\<close>, \<open>wakeup\<close>, register stores) are
  recorded, in order, in the \<open>out\<close> field of the state. The interrupt priority calls
  (\<open>spltty\<close>, \<open>splhigh\<close>, \<open>splx\<close>) have no effect in a sequential run and are
  left out.
\<close>

type_synonym byte = "8 word"
type_synonym u_int = "32 word"
type_synonym c_int = "32 word"

definition KBD_RING_SIZE :: "32 word" where
  "KBD_RING_SIZE = 256"

definition KBD_RING_MASK :: "32 word" where
  "KBD_RING_MASK = 255"

subsection \<open>Declarations of headers that are not part of the sources\<close>

text \<open>
  Modelled from the spec: the constants and macros of \<open>kbdreg.h\<close>, \<open>acia.h\<close>,
  \<open>event_var.h\<close> and \<open>vuid_event.h\<close>, which the driver includes and which are
  missing. Their values are parameters of the model (the record \<open>hdrs\<close>); the
  scancodes of the modifier keys are the case labels of one \<open>switch\<close>, so a C
  compiler only accepts pairwise different ones.
\<close>

record hdrs =
  KBD_IS_KEY :: "byte \<Rightarrow> bool"
  KBD_LEFT_SHIFT :: byte
  KBD_RIGHT_SHIFT :: byte
  KBD_CTRL :: byte
  KBD_ALT :: byte
  KBD_CAPS_LOCK :: byte
  KBD_MOD_LSHIFT :: byte
  KBD_MOD_RSHIFT :: byte
  KBD_MOD_CTRL :: byte
  KBD_MOD_ALT :: byte
  KBD_MOD_CAPS :: byte
  EV_QSIZE :: nat
  A_TXINT :: byte
  A_TXRDY :: byte
  A_OE :: byte
  A_PE :: byte
  TR_UNTRANS_EVENT :: c_int

text \<open>
  Modelled from the spec: a scancode is "a byte; high bit indicates release vs. press,
  low 7 bits identify the physical key" (the macros \<open>KBD_RELEASED\<close> and
  \<open>KBD_SCANCODE\<close> of the missing \<open>kbdreg.h\<close>).
\<close>

definition KBD_RELEASED :: "byte \<Rightarrow> bool" where
  "KBD_RELEASED c = (c AND 0x80 \<noteq> 0)"

definition KBD_SCANCODE :: "byte \<Rightarrow> byte" where
  "KBD_SCANCODE c = c AND 0x7f"

text \<open>
  Modelled from the spec: the package types of \<open>kbdreg.h\<close>
  ("packetType: enum {Memory, AbsoluteMouse, RelativeMouse, Clock, Joystick0, Joystick1}").
\<close>

datatype pkg_type =
    KBD_MEM_PKG | KBD_AMS_PKG | KBD_RMS_PKG | KBD_CLK_PKG | KBD_JOY0_PKG | KBD_JOY1_PKG

text \<open>
  Modelled from the spec: the event queue of \<open>event_var.h\<close> and its entries
  ("EventQueueEntry: {id: scancode-value, value: up|down, timestamp}; queue is a
  fixed-capacity circular buffer"), and the opener's process with its two ids.
\<close>

datatype vkey = VKEY_UP | VKEY_DOWN

record firm_event =
  fe_id :: byte
  fe_value :: vkey
  fe_time :: nat

record proc =
  p_pid :: c_int
  p_pgid :: c_int

record evvar =
  ev_get :: nat
  ev_put :: nat
  ev_q :: "firm_event list"
  ev_io :: "proc option"
  ev_async :: bool

subsection \<open>Driver state\<close>

datatype wscons_event = WSCONS_EVENT_KEY_UP | WSCONS_EVENT_KEY_DOWN

datatype ite_filt = ITEFILT_TTY

datatype wchan = Chan_sc_sendp | Chan_sc_send_cnt

datatype effect =
    Mouse_soft "byte list" byte pkg_type
  | Wskbd_input nat wscons_event byte
  | Ite_filter byte ite_filt
  | Printf_unknown_packet byte
  | Log_warning string
  | Ev_wakeup
  | Acia_cs_store byte
  | Acia_da_store byte
  | Wakeup wchan
  | Ym2149_store byte byte

record kbd_softc =
  sc_event_mode :: c_int
  sc_events :: evvar
  sc_soft_cs :: byte
  sc_package :: "byte list"
  sc_pkg_size :: byte
  sc_pkg_idx :: byte
  sc_pkg_type :: pkg_type
  sc_sendp :: "byte list option"
  sc_send_cnt :: c_int
  sc_wskbddev :: "nat option"
  sc_pollingmode :: c_int

text \<open>
  The static data of the file next to \<open>kbd_softc\<close>: the modifier mask, the bell
  table \<open>sound\<close>, the time \<open>firm_gettime\<close> reads, and the trace of calls.
\<close>

record kbd_state =
  softc :: kbd_softc
  kbd_modifier :: byte
  sound :: "byte list"
  time_now :: nat
  out :: "effect list"

record kbd_ringbuf =
  kbd_ring :: "byte list"
  kbd_rbput :: u_int
  kbd_rbget :: u_int

subsection \<open>kbdintr: the receive loop\<close>

text \<open>
  Line 440: \<open>kbd_ring[kbd_rbput++ & KBD_RING_MASK] = code\<close>.
\<close>

definition kbd_ring_put :: "byte \<Rightarrow> kbd_ringbuf \<Rightarrow> kbd_ringbuf" where
  "kbd_ring_put code rb =
     rb\<lparr>kbd_ring := (kbd_ring rb)[unat (kbd_rbput rb AND KBD_RING_MASK) := code],
        kbd_rbput := kbd_rbput rb + 1\<rparr>"

text \<open>
  The loop of lines 436 to 446 runs once for every character the ACIA holds. Each run
  reads the status register and then the data register: the argument lists these pairs
  \<open>(ac_cs, ac_da)\<close>. A character read with an overrun or parity error is dropped.
\<close>

definition kbdintr_rx1 :: "hdrs \<Rightarrow> byte \<times> byte \<Rightarrow> kbd_ringbuf \<Rightarrow> kbd_ringbuf" where
  "kbdintr_rx1 K rd rb =
     (if fst rd AND (A_OE K OR A_PE K) = 0 then kbd_ring_put (snd rd) rb else rb)"

definition kbdintr_rx :: "hdrs \<Rightarrow> (byte \<times> byte) list \<Rightarrow> kbd_ringbuf \<Rightarrow> kbd_ringbuf" where
  "kbdintr_rx K rds rb = fold (kbdintr_rx1 K) rds rb"

text \<open>The bytes a run of the receive loop pushes: the data of the error-free reads.\<close>

definition pushed :: "hdrs \<Rightarrow> (byte \<times> byte) list \<Rightarrow> byte list" where
  "pushed K rds = map snd (filter (\<lambda>rd. fst rd AND (A_OE K OR A_PE K) = 0) rds)"

subsection \<open>kbd_pkg_start\<close>

definition emit :: "effect \<Rightarrow> kbd_state \<Rightarrow> kbd_state" where
  "emit e d = d\<lparr>out := out d @ [e]\<rparr>"

definition kbd_pkg_start :: "kbd_state \<Rightarrow> byte \<Rightarrow> kbd_state" where
  "kbd_pkg_start d msg_start =
     (let sc = (softc d)\<lparr>sc_pkg_idx := 1,
                          sc_package := (sc_package (softc d))[0 := msg_start]\<rparr>
      in if msg_start = 0xf6 then
           d\<lparr>softc := sc\<lparr>sc_pkg_type := KBD_MEM_PKG, sc_pkg_size := 8\<rparr>\<rparr>
         else if msg_start = 0xf7 then
           d\<lparr>softc := sc\<lparr>sc_pkg_type := KBD_AMS_PKG, sc_pkg_size := 6\<rparr>\<rparr>
         else if msg_start = 0xf8 \<or> msg_start = 0xf9 \<or> msg_start = 0xfa
                 \<or> msg_start = 0xfb then
           d\<lparr>softc := sc\<lparr>sc_pkg_type := KBD_RMS_PKG, sc_pkg_size := 3\<rparr>\<rparr>
         else if msg_start = 0xfc then
           d\<lparr>softc := sc\<lparr>sc_pkg_type := KBD_CLK_PKG, sc_pkg_size := 7\<rparr>\<rparr>
         else if msg_start = 0xfe then
           d\<lparr>softc := sc\<lparr>sc_pkg_type := KBD_JOY0_PKG, sc_pkg_size := 2\<rparr>\<rparr>
         else if msg_start = 0xff then
           d\<lparr>softc := sc\<lparr>sc_pkg_type := KBD_JOY1_PKG, sc_pkg_size := 2\<rparr>\<rparr>
         else emit (Printf_unknown_packet msg_start) (d\<lparr>softc := sc\<rparr>))"

subsection \<open>kbd_do_modifier\<close>

text \<open>
  The \<open>switch\<close> on \<open>KBD_SCANCODE(code)\<close> is read in the order of its labels; the
  function returns the C \<open>int\<close> 1 or 0 together with the new state.
\<close>

definition kbd_do_modifier :: "hdrs \<Rightarrow> byte \<Rightarrow> kbd_state \<Rightarrow> int \<times> kbd_state" where
  "kbd_do_modifier K code d =
     (let up = KBD_RELEASED code;
          sk = KBD_SCANCODE code
      in if sk \<noteq> KBD_LEFT_SHIFT K \<and> sk \<noteq> KBD_RIGHT_SHIFT K \<and> sk \<noteq> KBD_CTRL K
            \<and> sk \<noteq> KBD_ALT K \<and> sk = KBD_CAPS_LOCK K then
           (1, if \<not> up then d\<lparr>kbd_modifier := kbd_modifier d XOR KBD_MOD_CAPS K\<rparr> else d)
         else
           let mask = (if sk = KBD_LEFT_SHIFT K then KBD_MOD_LSHIFT K
                       else if sk = KBD_RIGHT_SHIFT K then KBD_MOD_RSHIFT K
                       else if sk = KBD_CTRL K then KBD_MOD_CTRL K
                       else if sk = KBD_ALT K then KBD_MOD_ALT K
                       else 0)
           in if mask \<noteq> 0 then
                (1, if up then d\<lparr>kbd_modifier := kbd_modifier d AND NOT mask\<rparr>
                    else d\<lparr>kbd_modifier := kbd_modifier d OR mask\<rparr>)
              else (0, d))"

subsection \<open>kbdsoft\<close>

text \<open>
  The body of the inner loop of \<open>kbdsoft\<close> (lines 503 to 591) for one byte \<open>code\<close>
  taken from the ring; every \<open>continue\<close> ends it. It is split at the point where
  the byte is known to be a key: \<open>kbdsoft_key\<close> is the code from line 536 on.
\<close>

definition kbdsoft_key :: "hdrs \<Rightarrow> byte \<Rightarrow> kbd_state \<Rightarrow> kbd_state" where
  "kbdsoft_key K code d =
     (if sc_pollingmode (softc d) = 0 \<and> sc_wskbddev (softc d) \<noteq> None
         \<and> sc_event_mode (softc d) = 0 then
        emit (Wskbd_input (the (sc_wskbddev (softc d)))
               (if KBD_RELEASED code then WSCONS_EVENT_KEY_UP else WSCONS_EVENT_KEY_DOWN)
               (KBD_SCANCODE code)) d
      else
        let (r, d1) = kbd_do_modifier K code d
        in if r \<noteq> 0 \<and> sc_event_mode (softc d1) = 0 then d1
           else if sc_event_mode (softc d1) = 0 then emit (Ite_filter code ITEFILT_TTY) d1
           else
             let ev = sc_events (softc d1);
                 put0 = ev_put ev;
                 put = (put0 + 1) mod EV_QSIZE K
             in if put = ev_get ev then
                  emit (Log_warning ''keyboard event queue overflow'') d1
                else
                  let fe = \<lparr>fe_id = KBD_SCANCODE code,
                            fe_value = (if KBD_RELEASED code then VKEY_UP else VKEY_DOWN),
                            fe_time = time_now d1\<rparr>
                  in emit Ev_wakeup
                       (d1\<lparr>softc := (softc d1)\<lparr>sc_events :=
                              ev\<lparr>ev_q := (ev_q ev)[put0 := fe], ev_put := put\<rparr>\<rparr>\<rparr>))"

definition kbdsoft_code :: "hdrs \<Rightarrow> byte \<Rightarrow> kbd_state \<Rightarrow> kbd_state" where
  "kbdsoft_code K code d =
     (let sc = softc d
      in if sc_pkg_size sc \<noteq> 0 \<and> sc_pkg_idx sc < sc_pkg_size sc then
           let sc1 = sc\<lparr>sc_package := (sc_package sc)[unat (sc_pkg_idx sc) := code],
                       sc_pkg_idx := sc_pkg_idx sc + 1\<rparr>
           in if sc_pkg_idx sc1 = sc_pkg_size sc1 then
                let d1 = d\<lparr>softc := sc1\<rparr>;
                    d2 = (if sc_pkg_type sc1 = KBD_AMS_PKG \<or> sc_pkg_type sc1 = KBD_RMS_PKG
                             \<or> sc_pkg_type sc1 = KBD_JOY1_PKG
                          then emit (Mouse_soft (sc_package sc1) (sc_pkg_size sc1)
                                      (sc_pkg_type sc1)) d1
                          else d1)
                in d2\<lparr>softc := (softc d2)\<lparr>sc_pkg_size := 0\<rparr>\<rparr>
              else d\<lparr>softc := sc1\<rparr>
         else if \<not> KBD_IS_KEY K code then kbd_pkg_start d code
         else kbdsoft_key K code d)"

subsection \<open>Reading 32-bit values\<close>

lemma signed_take_bit_31:
  assumes "0 \<le> x" "x < 4294967296"
  shows "signed_take_bit 31 (x::int) = (if x < 2147483648 then x else x - 4294967296)"
proof (cases "x < 2147483648")
  case True
  then have "(x + 2147483648) mod 4294967296 = x + 2147483648"
    using assms by (intro mod_pos_pos_trivial) auto
  then show ?thesis using True
    by (simp add: signed_take_bit_eq_take_bit_shift take_bit_eq_mod)
next
  case False
  have "(x + 2147483648) mod 4294967296 = (x + 2147483648 - 4294967296) mod 4294967296"
    using False by (intro mod_pos_geq) auto
  also have "\<dots> = x + 2147483648 - 4294967296"
    using assms False by (intro mod_pos_pos_trivial) auto
  finally show ?thesis using False
    by (simp add: signed_take_bit_eq_take_bit_shift take_bit_eq_mod)
qed

lemma sint32:
  "sint (w::32 word) = (if uint w < 2147483648 then uint w else uint w - 4294967296)"
proof -
  have "uint w < 4294967296" using uint_lt2p [of w] by simp
  then show ?thesis by (simp add: sint_uint signed_take_bit_31)
qed

lemma sint_of_nat32: "m < 2147483648 \<Longrightarrow> sint (of_nat m :: 32 word) = int m"
  by (simp add: sint32 uint_nat unat_of_nat del: of_nat_unat)

lemma sint_dec:
  assumes a: "0 \<le> sint (w :: 32 word)" and nz: "w \<noteq> 0"
  shows "sint (w - 1) = sint w - 1"
proof -
  have u: "uint (w - 1) = uint w - 1"
  proof -
    have "uint w \<noteq> 0" using nz by (simp add: uint_0_iff)
    moreover have "0 \<le> uint w" by simp
    ultimately have "1 \<le> uint w" by linarith
    then show ?thesis by (simp add: uint_sub_if' word_le_def)
  qed
  from a have "uint w < 2147483648"
    using uint_lt2p [of w] by (simp add: sint32 split: if_splits)
  then show ?thesis using u by (simp add: sint32)
qed

lemma unat_and_255: "unat ((w :: 32 word) AND 255) = unat w mod 256"
proof -
  have "(255 :: 32 word) = mask 8" by (simp add: mask_eq_exp_minus_1)
  then have "w AND 255 = take_bit 8 w" by (simp add: take_bit_eq_mask)
  then show ?thesis by (simp add: unsigned_take_bit_eq take_bit_eq_mod unat_mod)
qed

lemma unat_add_mod: "unat ((p :: 32 word) + of_nat k) mod 256 = (unat p + k) mod 256"
proof -
  have "unat (p + of_nat k) = (unat p + k mod 2 ^ 32) mod 2 ^ 32"
    by (simp add: unat_word_ariths unat_of_nat)
  also have "\<dots> = (unat p + k) mod 2 ^ 32"
    by (simp add: mod_add_right_eq)
  finally have "unat (p + of_nat k) mod 256 = ((unat p + k) mod 2 ^ 32) mod 256" by simp
  also have "\<dots> = (unat p + k) mod 256"
    by (rule mod_mod_cancel) simp
  finally show ?thesis .
qed

text \<open>
  The loop \<open>while (--n >= 0)\<close> of line 500, with the locals \<open>n\<close> and \<open>get\<close>; it
  returns \<open>get\<close> and the state. The ring is only read.
\<close>

function kbdsoft_while ::
  "hdrs \<Rightarrow> c_int \<Rightarrow> c_int \<Rightarrow> byte list \<Rightarrow> kbd_state \<Rightarrow> c_int \<times> kbd_state" where
  "kbdsoft_while K n get ring d =
     (if 0 \<le> sint (n - 1)
      then kbdsoft_while K (n - 1) (get + 1) ring
             (kbdsoft_code K (ring ! unat (get AND KBD_RING_MASK)) d)
      else (get, d))"
  by pat_completeness auto
termination
proof (relation "measure (\<lambda>(K, n, get, ring, d). nat (sint (n - 1) + 1))")
  show "wf (measure (\<lambda>(K :: hdrs, n :: c_int, get :: c_int, ring :: byte list,
               d :: kbd_state). nat (sint (n - 1) + 1)))"
    by simp
next
  fix K :: hdrs and n get :: c_int and ring :: "byte list" and d :: kbd_state
  assume a: "0 \<le> sint (n - 1)"
  have "sint (n - 1 - 1) < sint (n - 1)"
  proof (cases "n - 1 = 0")
    case True
    then show ?thesis by simp
  next
    case False
    with a show ?thesis using sint_dec [of "n - 1"] by simp
  qed
  with a show "((K, n - 1, get + 1, ring,
           kbdsoft_code K (ring ! unat (get AND KBD_RING_MASK)) d), K, n, get, ring, d)
         \<in> measure (\<lambda>(K, n, get, ring, d). nat (sint (n - 1) + 1))"
    by simp
qed

text \<open>
  The loop \<open>for (;;)\<close> of line 491. It ends when \<open>get\<close> has reached \<open>kbd_rbput\<close>;
  a run that never gets there has the value \<open>None\<close>. No byte arrives during the
  run: the producer is a different context and the model is sequential.
\<close>

partial_function (option) kbdsoft_for ::
  "hdrs \<Rightarrow> c_int \<Rightarrow> kbd_ringbuf \<Rightarrow> kbd_state \<Rightarrow> (kbd_ringbuf \<times> kbd_state) option" where
  "kbdsoft_for K get rb d =
     (let n = kbd_rbput rb
      in if get = n then Some (rb, d)
         else
           let n1 = n - get;
               get1 = (if sint KBD_RING_SIZE < sint n1 then get + (n1 - KBD_RING_SIZE)
                       else get);
               n2 = (if sint KBD_RING_SIZE < sint n1 then KBD_RING_SIZE else n1);
               r = kbdsoft_while K n2 get1 (kbd_ring rb) d
           in kbdsoft_for K (fst r) (rb\<lparr>kbd_rbget := fst r\<rparr>) (snd r))"

definition kbdsoft :: "hdrs \<Rightarrow> kbd_ringbuf \<Rightarrow> kbd_state \<Rightarrow> (kbd_ringbuf \<times> kbd_state) option" where
  "kbdsoft K rb d = kbdsoft_for K (kbd_rbget rb) rb d"

subsection \<open>The bell\<close>

definition KBDBELLCLOCK :: u_int where
  "KBDBELLCLOCK = 125000"

definition KBDBELLDURATION :: u_int where
  "KBDBELLDURATION = 128"

definition kbdbell :: "kbd_state \<Rightarrow> kbd_state" where
  "kbdbell d = fold (\<lambda>i. emit (Ym2149_store (of_nat i) (sound d ! i))) [0..<14] d"

text \<open>
  \<open>kbd_bell_gparms\<close> writes through its three pointers; the model returns the triple
  \<open>(volume, pitch, duration)\<close>. The division \<open>KBDBELLCLOCK / tmp\<close> traps when the
  first tone divisor of the table is 0: that is the value \<open>None\<close>.
\<close>

definition kbd_bell_gparms :: "kbd_state \<Rightarrow> (u_int \<times> u_int \<times> u_int) option" where
  "kbd_bell_gparms d =
     (let tmp = ucast (sound d ! 11) OR push_bit 8 (ucast (sound d ! 12) :: u_int);
          duration = (tmp * KBDBELLDURATION) div 1000;
          tmp1 = ucast (sound d ! 0) OR push_bit 8 (ucast (sound d ! 1) :: u_int)
      in if tmp1 = 0 then None
         else Some (0, KBDBELLCLOCK div tmp1, duration))"

definition kbd_bell_sparms :: "u_int \<Rightarrow> u_int \<Rightarrow> u_int \<Rightarrow> kbd_state \<Rightarrow> kbd_state" where
  "kbd_bell_sparms volume pitch duration d =
     (let f0 = (if pitch > 10 then pitch else 10);
          f1 = (if f0 > 20000 then 20000 else f0);
          f = KBDBELLCLOCK div f1;
          t = (duration * 1000) div KBDBELLDURATION;
          s0 = (sound d)[0 := ucast (f AND 0xff)];
          s1 = s0[1 := ucast (drop_bit 8 f AND 0xf)];
          f2 = f - 1;
          s2 = s1[2 := ucast (f2 AND 0xff)];
          s3 = s2[3 := ucast (drop_bit 8 f2 AND 0xf)];
          f3 = f2 + 2;
          s4 = s3[4 := ucast (f3 AND 0xff)];
          s5 = s4[5 := ucast (drop_bit 8 f3 AND 0xf)];
          s11 = s5[11 := ucast (t AND 0xff)];
          s12 = s11[12 := ucast (drop_bit 8 t AND 0xff)];
          s13 = s12[13 := 0x03]
      in d\<lparr>sound := s13\<rparr>)"

subsection \<open>kbd_write\<close>

text \<open>
  \<open>kbd_write\<close> may sleep. The model runs it up to its first \<open>tsleep\<close> and says
  which of the two it reached, with the state at that point; otherwise the function
  returns. \<open>ac_cs\<close> is the value the ACIA status register holds at line 743, \<open>cmd\<close>
  the bytes behind the pointer \<open>cmd\<close>; reading past their end is \<open>Fault\<close>.
\<close>

datatype 'a sleepable = Returned 'a | Tsleep wchan string 'a | Fault

definition kbd_write ::
  "hdrs \<Rightarrow> byte \<Rightarrow> byte list \<Rightarrow> c_int \<Rightarrow> kbd_state \<Rightarrow> kbd_state sleepable" where
  "kbd_write K ac_cs cmd len d =
     (if sc_sendp (softc d) \<noteq> None then Tsleep Chan_sc_sendp ''kbd_write1'' d
      else
        let cs = sc_soft_cs (softc d) OR A_TXINT K;
            d1 = emit (Acia_cs_store cs) (d\<lparr>softc := (softc d)\<lparr>sc_soft_cs := cs\<rparr>\<rparr>)
        in if ac_cs AND A_TXRDY K \<noteq> 0 \<and> cmd = [] then Fault
           else
             let d2 = (if ac_cs AND A_TXRDY K \<noteq> 0 then emit (Acia_da_store (hd cmd)) d1
                       else d1);
                 cmd1 = (if ac_cs AND A_TXRDY K \<noteq> 0 then tl cmd else cmd);
                 len1 = (if ac_cs AND A_TXRDY K \<noteq> 0 then len - 1 else len)
             in if 0 < sint len1 then
                  Tsleep Chan_sc_send_cnt ''kbd_write2''
                    (d2\<lparr>softc := (softc d2)\<lparr>sc_sendp := Some cmd1, sc_send_cnt := len1\<rparr>\<rparr>)
                else Returned (emit (Wakeup Chan_sc_sendp) d2))"

subsection \<open>kbdioctl\<close>

text \<open>
  The request with the data its pointer argument refers to. The result is the value
  returned (\<open>OK\<close> for 0), the \<open>int\<close> stored through \<open>data\<close> if any, and the state;
  \<open>None\<close> is the dereference of a null \<open>ev_io\<close>.
\<close>

record kbdbell_data =
  volume :: u_int
  pitch :: u_int
  duration :: u_int

datatype ioctl_cmd =
    KIOCTRANS c_int
  | KIOCGTRANS
  | KIOCSDIRECT c_int
  | KIOCRINGBELL "kbdbell_data option"
  | FIONBIO
  | FIOASYNC c_int
  | FIOSETOWN c_int
  | TIOCSPGRP c_int
  | Other_request

datatype c_ret = OK | EPERM | ENOTTY | EOPNOTSUPP

definition kbdioctl ::
  "hdrs \<Rightarrow> ioctl_cmd \<Rightarrow> kbd_state \<Rightarrow> (c_ret \<times> c_int option \<times> kbd_state) option" where
  "kbdioctl K cmd d =
     (case cmd of
        KIOCTRANS v \<Rightarrow>
          Some (if v = TR_UNTRANS_EVENT K then OK else EOPNOTSUPP, None, d)
      | KIOCGTRANS \<Rightarrow> Some (OK, Some (TR_UNTRANS_EVENT K), d)
      | KIOCSDIRECT v \<Rightarrow> Some (OK, None, d\<lparr>softc := (softc d)\<lparr>sc_event_mode := v\<rparr>\<rparr>)
      | KIOCRINGBELL kb \<Rightarrow>
          Some (OK, None,
                kbdbell (case kb of
                           None \<Rightarrow> d
                         | Some b \<Rightarrow> kbd_bell_sparms (volume b) (pitch b) (duration b) d))
      | FIONBIO \<Rightarrow> Some (OK, None, d)
      | FIOASYNC v \<Rightarrow>
          Some (OK, None,
                d\<lparr>softc := (softc d)\<lparr>sc_events :=
                      (sc_events (softc d))\<lparr>ev_async := (v \<noteq> 0)\<rparr>\<rparr>\<rparr>)
      | FIOSETOWN v \<Rightarrow>
          (case ev_io (sc_events (softc d)) of
             None \<Rightarrow> None
           | Some p \<Rightarrow> Some (if - v \<noteq> p_pgid p \<and> v \<noteq> p_pid p then EPERM else OK, None, d))
      | TIOCSPGRP v \<Rightarrow>
          (case ev_io (sc_events (softc d)) of
             None \<Rightarrow> None
           | Some p \<Rightarrow> Some (if v \<noteq> p_pgid p then EPERM else OK, None, d))
      | Other_request \<Rightarrow> Some (ENOTTY, None, d))"

subsection \<open>Conditions on the header values\<close>

text \<open>
  \<open>modifier_code\<close>: the scancode of \<open>code\<close> is one of the five case labels of
  \<open>kbd_do_modifier\<close>. \<open>hdrs_ok\<close>: the labels are pairwise different, as the
  \<open>switch\<close> needs them, they are scancodes (the release bit is clear), and no
  modifier mask is 0.
\<close>

definition modifier_code :: "hdrs \<Rightarrow> byte \<Rightarrow> bool" where
  "modifier_code K code \<longleftrightarrow>
     KBD_SCANCODE code = KBD_LEFT_SHIFT K \<or> KBD_SCANCODE code = KBD_RIGHT_SHIFT K
     \<or> KBD_SCANCODE code = KBD_CTRL K \<or> KBD_SCANCODE code = KBD_ALT K
     \<or> KBD_SCANCODE code = KBD_CAPS_LOCK K"

definition hdrs_ok :: "hdrs \<Rightarrow> bool" where
  "hdrs_ok K \<longleftrightarrow>
     distinct [KBD_LEFT_SHIFT K, KBD_RIGHT_SHIFT K, KBD_CTRL K, KBD_ALT K, KBD_CAPS_LOCK K]
     \<and> KBD_LEFT_SHIFT K AND 0x80 = 0 \<and> KBD_RIGHT_SHIFT K AND 0x80 = 0
     \<and> KBD_CTRL K AND 0x80 = 0 \<and> KBD_ALT K AND 0x80 = 0 \<and> KBD_CAPS_LOCK K AND 0x80 = 0
     \<and> KBD_MOD_LSHIFT K \<noteq> 0 \<and> KBD_MOD_RSHIFT K \<noteq> 0 \<and> KBD_MOD_CTRL K \<noteq> 0
     \<and> KBD_MOD_ALT K \<noteq> 0 \<and> KBD_MOD_CAPS K \<noteq> 0"


subsection \<open>A sample set of header values and the initial state\<close>

text \<open>
  The theorems below hold for every value of the header constants, under the
  conditions they state. The closed examples use the scancodes of the Atari IKBD and the
  status bits of the MC6850 ACIA, and the zero-initialised static data of the driver.
\<close>

definition ikbd_hdrs :: hdrs where
  "ikbd_hdrs =
     \<lparr>KBD_IS_KEY = (\<lambda>c. c < 0xf6),
      KBD_LEFT_SHIFT = 0x2a, KBD_RIGHT_SHIFT = 0x36, KBD_CTRL = 0x1d, KBD_ALT = 0x38,
      KBD_CAPS_LOCK = 0x3a,
      KBD_MOD_LSHIFT = 0x01, KBD_MOD_RSHIFT = 0x02, KBD_MOD_CTRL = 0x04, KBD_MOD_ALT = 0x08,
      KBD_MOD_CAPS = 0x10,
      EV_QSIZE = 256,
      A_TXINT = 0x20, A_TXRDY = 0x02, A_OE = 0x20, A_PE = 0x40,
      TR_UNTRANS_EVENT = 3\<rparr>"

definition ring0 :: kbd_ringbuf where
  "ring0 = \<lparr>kbd_ring = replicate 256 0, kbd_rbput = 0, kbd_rbget = 0\<rparr>"

definition sound0 :: "byte list" where
  "sound0 = [0xA8, 0x01, 0xA9, 0x01, 0xAA, 0x01, 0x00,
             0xF8, 0x10, 0x10, 0x10, 0x00, 0x20, 0x03]"

definition kbd0 :: kbd_state where
  "kbd0 =
     \<lparr>softc = \<lparr>sc_event_mode = 0,
                sc_events = \<lparr>ev_get = 0, ev_put = 0, ev_q = [], ev_io = None,
                              ev_async = False\<rparr>,
                sc_soft_cs = 0, sc_package = replicate 20 0, sc_pkg_size = 0, sc_pkg_idx = 0,
                sc_pkg_type = KBD_MEM_PKG, sc_sendp = None, sc_send_cnt = 0,
                sc_wskbddev = None, sc_pollingmode = 0\<rparr>,
      kbd_modifier = 0, sound = sound0, time_now = 0, out = []\<rparr>"

text \<open>A state in event mode: the device is open and has a queue of 256 entries.\<close>

definition kbd_ev :: kbd_state where
  "kbd_ev = kbd0\<lparr>softc := (softc kbd0)\<lparr>sc_event_mode := 1,
               sc_events := \<lparr>ev_get = 0, ev_put = 0,
                              ev_q = replicate 256 \<lparr>fe_id = 0, fe_value = VKEY_UP, fe_time = 0\<rparr>,
                              ev_io = Some \<lparr>p_pid = 42, p_pgid = 7\<rparr>, ev_async = False\<rparr>\<rparr>,
              time_now := 1000\<rparr>"

section \<open>The ring buffer between kbdintr and kbdsoft\<close>

lemma kbdintr_rx_pushed: "kbdintr_rx K rds rb = fold kbd_ring_put (pushed K rds) rb"
  unfolding kbdintr_rx_def pushed_def
  by (induction rds arbitrary: rb) (simp_all add: kbdintr_rx1_def)

lemma kbd_ring_put_sel:
  "kbd_ring (kbd_ring_put c rb) = (kbd_ring rb)[unat (kbd_rbput rb) mod 256 := c]"
  "kbd_rbput (kbd_ring_put c rb) = kbd_rbput rb + 1"
  "kbd_rbget (kbd_ring_put c rb) = kbd_rbget rb"
  by (simp_all add: kbd_ring_put_def KBD_RING_MASK_def unat_and_255)

lemma fold_put_rbput: "kbd_rbput (fold kbd_ring_put bs rb) = kbd_rbput rb + of_nat (length bs)"
  by (induction bs arbitrary: rb) (simp_all add: kbd_ring_put_sel)

lemma fold_put_rbget: "kbd_rbget (fold kbd_ring_put bs rb) = kbd_rbget rb"
  by (induction bs arbitrary: rb) (simp_all add: kbd_ring_put_sel)

lemma fold_put_length: "length (kbd_ring (fold kbd_ring_put bs rb)) = length (kbd_ring rb)"
  by (induction bs arbitrary: rb) (simp_all add: kbd_ring_put_sel)

lemma mod256_neq:
  assumes "i < l" "l - i < 256"
  shows "(p + i) mod 256 \<noteq> (p + l) mod (256::nat)"
proof
  assume "(p + i) mod 256 = (p + l) mod 256"
  then have "(p + l) mod 256 = (p + i) mod 256" by simp
  then have "256 dvd (p + l) - (p + i)"
    using assms by (subst (asm) mod_eq_dvd_iff_nat) auto
  then have "256 dvd l - i" by simp
  then have "256 \<le> l - i" using assms by (intro dvd_imp_le) auto
  with assms show False by simp
qed

lemma fold_put_ring:
  assumes len: "length (kbd_ring rb) = 256"
  shows "i < length bs \<Longrightarrow> length bs - i \<le> 256 \<Longrightarrow>
         kbd_ring (fold kbd_ring_put bs rb) ! ((unat (kbd_rbput rb) + i) mod 256) = bs ! i"
proof (induction bs arbitrary: i rule: rev_induct)
  case Nil
  then show ?case by simp
next
  case (snoc b bs)
  let ?rb = "fold kbd_ring_put bs rb"
  have r: "kbd_ring (kbd_ring_put b ?rb) =
           (kbd_ring ?rb)[(unat (kbd_rbput rb) + length bs) mod 256 := b]"
    by (simp add: kbd_ring_put_sel fold_put_rbput unat_add_mod)
  have l: "length (kbd_ring ?rb) = 256" by (simp add: fold_put_length len)
  show ?case
  proof (cases "i = length bs")
    case True
    then show ?thesis
      by (simp add: r l)
  next
    case False
    with snoc.prems have i: "i < length bs" "length bs - i < 256" by auto
    then have "(unat (kbd_rbput rb) + i) mod 256 \<noteq> (unat (kbd_rbput rb) + length bs) mod 256"
      by (rule mod256_neq)
    then show ?thesis using i snoc.IH [of i]
      by (simp add: r nth_append)
  qed
qed

declare kbdsoft_while.simps [simp del]

lemma kbdsoft_while_of_nat:
  "m < 2147483648 \<Longrightarrow>
   kbdsoft_while K (of_nat m) get ring d =
     (get + of_nat m,
      fold (kbdsoft_code K) (map (\<lambda>i. ring ! (unat (get + of_nat i) mod 256)) [0..<m]) d)"
proof (induction m arbitrary: get d)
  case 0
  show ?case by (subst kbdsoft_while.simps) simp
next
  case (Suc m)
  have s: "0 \<le> sint (of_nat m :: 32 word)"
    using Suc.prems by (simp add: sint_of_nat32)
  have "kbdsoft_while K (of_nat (Suc m)) get ring d =
        kbdsoft_while K (of_nat m) (get + 1) ring (kbdsoft_code K (ring ! (unat get mod 256)) d)"
    using s by (subst kbdsoft_while.simps) (simp add: KBD_RING_MASK_def unat_and_255)
  also have "\<dots> = (get + 1 + of_nat m,
      fold (kbdsoft_code K) (map (\<lambda>i. ring ! (unat (get + 1 + of_nat i) mod 256)) [0..<m])
        (kbdsoft_code K (ring ! (unat get mod 256)) d))"
    using Suc.prems by (subst Suc.IH) simp_all
  finally show ?case
    by (simp add: map_upt_Suc add.assoc del: upt_Suc)
qed


lemma ring_window:
  assumes len: "length (kbd_ring rb) = 256" and m: "m \<le> 256" "m \<le> length bs"
  shows "map (\<lambda>i. kbd_ring (fold kbd_ring_put bs rb) !
                 (unat (kbd_rbput rb + of_nat (length bs - m) + of_nat i) mod 256)) [0..<m]
         = drop (length bs - m) bs"
proof (rule nth_equalityI)
  show "length (map (\<lambda>i. kbd_ring (fold kbd_ring_put bs rb) !
                 (unat (kbd_rbput rb + of_nat (length bs - m) + of_nat i) mod 256)) [0..<m])
        = length (drop (length bs - m) bs)"
    using m by simp
next
  fix i
  assume "i < length (map (\<lambda>i. kbd_ring (fold kbd_ring_put bs rb) !
                 (unat (kbd_rbput rb + of_nat (length bs - m) + of_nat i) mod 256)) [0..<m])"
  then have i: "i < m" by simp
  have "unat (kbd_rbput rb + of_nat (length bs - m) + of_nat i) mod 256
        = (unat (kbd_rbput rb) + (length bs - m + i)) mod 256"
    using unat_add_mod [of "kbd_rbput rb" "length bs - m + i"] by (simp add: add.assoc)
  moreover have "kbd_ring (fold kbd_ring_put bs rb) !
                   ((unat (kbd_rbput rb) + (length bs - m + i)) mod 256) = bs ! (length bs - m + i)"
    using i m by (intro fold_put_ring [OF len]) auto
  ultimately show "map (\<lambda>i. kbd_ring (fold kbd_ring_put bs rb) !
                 (unat (kbd_rbput rb + of_nat (length bs - m) + of_nat i) mod 256)) [0..<m] ! i
        = drop (length bs - m) bs ! i"
    using i m by simp
qed

lemma kbdsoft_while_window:
  assumes len: "length (kbd_ring rb) = 256" and m: "m \<le> 256" "m \<le> length bs"
  shows "kbdsoft_while K (of_nat m) (kbd_rbput rb + of_nat (length bs - m))
           (kbd_ring (fold kbd_ring_put bs rb)) d
         = (kbd_rbput rb + of_nat (length bs),
            fold (kbdsoft_code K) (drop (length bs - m) bs) d)"
proof -
  have m3: "m < 2147483648" using m by simp
  have "(of_nat (length bs - m) + of_nat m :: 32 word) = of_nat (length bs)"
    using m by (simp flip: of_nat_add)
  then have "kbd_rbput rb + of_nat (length bs - m) + (of_nat m :: 32 word)
             = kbd_rbput rb + of_nat (length bs)"
    by (simp add: add.assoc)
  then show ?thesis
    by (simp only: kbdsoft_while_of_nat [OF m3] ring_window [OF len m(1) m(2)])
qed

lemma kbdsoft_drain:
  assumes len: "length (kbd_ring rb) = 256" and e: "kbd_rbget rb = kbd_rbput rb"
    and L: "length bs < 2147483648"
  shows "kbdsoft K (fold kbd_ring_put bs rb) d =
           Some ((fold kbd_ring_put bs rb)\<lparr>kbd_rbget := kbd_rbput rb + of_nat (length bs)\<rparr>,
                 fold (kbdsoft_code K) (drop (length bs - 256) bs) d)"
proof (cases "bs = []")
  case True
  then show ?thesis using e
    by (simp add: kbdsoft_def kbdsoft_for.simps)
next
  case False
  let ?rb = "fold kbd_ring_put bs rb"
  let ?L = "length bs"
  define m where "m = min ?L 256"
  have m: "m \<le> 256" "m \<le> ?L" "m < 2147483648" by (simp_all add: m_def)
  have sL: "sint (of_nat ?L :: 32 word) = int ?L" using L by (rule sint_of_nat32)
  have nz: "(of_nat ?L :: 32 word) \<noteq> 0"
  proof
    assume "(of_nat ?L :: 32 word) = 0"
    then have "sint (of_nat ?L :: 32 word) = 0" by simp
    with sL False show False by simp
  qed
  have n2: "(if sint KBD_RING_SIZE < sint (of_nat ?L :: 32 word) then KBD_RING_SIZE else of_nat ?L)
            = of_nat m"
    by (simp add: sL KBD_RING_SIZE_def m_def min_def)
  have g1: "(if sint KBD_RING_SIZE < sint (of_nat ?L :: 32 word)
             then kbd_rbput rb + (of_nat ?L - KBD_RING_SIZE) else kbd_rbput rb)
            = kbd_rbput rb + of_nat (?L - m)"
    by (simp add: sL KBD_RING_SIZE_def m_def min_def)
  have w: "kbdsoft_while K (of_nat m) (kbd_rbput rb + of_nat (?L - m)) (kbd_ring ?rb) d
           = (kbd_rbput rb + of_nat ?L, fold (kbdsoft_code K) (drop (?L - m) bs) d)"
    using m by (intro kbdsoft_while_window [OF len])
  have d: "drop (?L - m) bs = drop (?L - 256) bs"
    by (simp add: m_def min_def)
  have "kbdsoft K ?rb d = kbdsoft_for K (kbd_rbput rb) ?rb d"
    by (simp add: kbdsoft_def fold_put_rbget e)
  also have "\<dots> = kbdsoft_for K (kbd_rbput rb + of_nat ?L)
                      (?rb\<lparr>kbd_rbget := kbd_rbput rb + of_nat ?L\<rparr>)
                      (fold (kbdsoft_code K) (drop (?L - m) bs) d)"
    using nz by (subst kbdsoft_for.simps) (simp add: fold_put_rbput Let_def n2 g1 w)
  also have "\<dots> = Some (?rb\<lparr>kbd_rbget := kbd_rbput rb + of_nat ?L\<rparr>,
                        fold (kbdsoft_code K) (drop (?L - m) bs) d)"
    by (subst kbdsoft_for.simps) (simp add: fold_put_rbput)
  finally show ?thesis by (simp add: d)
qed


lemma pushed_replicate:
  "fst rd AND (A_OE K OR A_PE K) = 0 \<Longrightarrow> pushed K (replicate n rd) = replicate n (snd rd)"
  by (induction n) (simp_all add: pushed_def)

lemma pushed_map:
  "s AND (A_OE K OR A_PE K) = 0 \<Longrightarrow> pushed K (map (\<lambda>i. (s, f i)) xs) = map f xs"
  by (induction xs) (simp_all add: pushed_def)

lemma kbdsoft_for_stuck:
  assumes "kbdsoft_for K get rb d = Some y"
  shows "\<not> (sint (kbd_rbput rb - get) < 0 \<and> sint (kbd_rbput rb - get - 1) < 0
            \<and> kbd_rbget rb = get)"
proof (rule kbdsoft_for.raw_induct
    [where P = "\<lambda>K get rb d y. \<not> (sint (kbd_rbput rb - get) < 0
                  \<and> sint (kbd_rbput rb - get - 1) < 0 \<and> kbd_rbget rb = get)", OF _ assms])
  fix f :: "hdrs \<Rightarrow> c_int \<Rightarrow> kbd_ringbuf \<Rightarrow> kbd_state \<Rightarrow> (kbd_ringbuf \<times> kbd_state) option"
    and K get rb d y
  assume IH: "\<And>K get rb d y. f K get rb d = Some y \<Longrightarrow>
                \<not> (sint (kbd_rbput rb - get) < 0 \<and> sint (kbd_rbput rb - get - 1) < 0
                   \<and> kbd_rbget rb = get)"
  assume eq: "(let n = kbd_rbput rb
      in if get = n then Some (rb, d)
         else
           let n1 = n - get;
               get1 = (if sint KBD_RING_SIZE < sint n1 then get + (n1 - KBD_RING_SIZE)
                       else get);
               n2 = (if sint KBD_RING_SIZE < sint n1 then KBD_RING_SIZE else n1);
               r = kbdsoft_while K n2 get1 (kbd_ring rb) d
           in f K (fst r) (rb\<lparr>kbd_rbget := fst r\<rparr>) (snd r)) = Some y"
  show "\<not> (sint (kbd_rbput rb - get) < 0 \<and> sint (kbd_rbput rb - get - 1) < 0
            \<and> kbd_rbget rb = get)"
  proof
    assume st: "sint (kbd_rbput rb - get) < 0 \<and> sint (kbd_rbput rb - get - 1) < 0
                \<and> kbd_rbget rb = get"
    then have ne: "get \<noteq> kbd_rbput rb" by auto
    have w: "kbdsoft_while K (kbd_rbput rb - get) get (kbd_ring rb) d = (get, d)"
      using st by (subst kbdsoft_while.simps) simp
    have "rb\<lparr>kbd_rbget := get\<rparr> = rb" using st by simp
    with eq ne st w have "f K get rb d = Some y"
      by (simp add: Let_def KBD_RING_SIZE_def)
    from IH [OF this] st show False by simp
  qed
qed

lemma kbdsoft_never_returns:
  assumes "kbd_rbget rb = kbd_rbput rb" and "length bs = 2147483649"
  shows "kbdsoft K (fold kbd_ring_put bs rb) d = None"
proof (cases "kbdsoft K (fold kbd_ring_put bs rb) d")
  case None
  then show ?thesis .
next
  case (Some y)
  then have "kbdsoft_for K (kbd_rbput rb) (fold kbd_ring_put bs rb) d = Some y"
    by (simp add: kbdsoft_def fold_put_rbget assms)
  from kbdsoft_for_stuck [OF this] show ?thesis
    by (simp add: fold_put_rbput fold_put_rbget assms)
qed


text \<open>
  C1. From a drained ring (\<open>kbd_rbget = kbd_rbput\<close>), after the receive loop has
  pushed at most 256 bytes, one run of \<open>kbdsoft\<close> returns, has executed the body of
  its inner loop on exactly the pushed bytes, in the order they were pushed, and leaves
  \<open>kbd_rbget\<close> equal to \<open>kbd_rbput\<close>.
\<close>

theorem kbdsoft_yields_pushed:
  assumes "length (kbd_ring rb) = 256" and "kbd_rbget rb = kbd_rbput rb"
    and "length (pushed K rds) \<le> 256"
  shows "kbdsoft K (kbdintr_rx K rds rb) d =
           Some ((kbdintr_rx K rds rb)\<lparr>kbd_rbget := kbd_rbput (kbdintr_rx K rds rb)\<rparr>,
                 fold (kbdsoft_code K) (pushed K rds) d)"
  using assms kbdsoft_drain [of rb "pushed K rds" K d]
  by (simp add: kbdintr_rx_pushed fold_put_rbput)

theorem kbdsoft_yields_pushed_witness:
  "kbdsoft ikbd_hdrs (kbdintr_rx ikbd_hdrs [(0x81, 0x1e), (0xa1, 0x55), (0x81, 0x9e)] ring0) kbd0 =
     Some ((kbdintr_rx ikbd_hdrs [(0x81, 0x1e), (0xa1, 0x55), (0x81, 0x9e)] ring0)
             \<lparr>kbd_rbget := 2\<rparr>,
           fold (kbdsoft_code ikbd_hdrs) [0x1e, 0x9e] kbd0)"
  using kbdsoft_yields_pushed
    [of ring0 ikbd_hdrs "[(0x81, 0x1e), (0xa1, 0x55), (0x81, 0x9e)]" kbd0]
  by (simp add: ring0_def pushed_def ikbd_hdrs_def kbdintr_rx_def kbdintr_rx1_def
      kbd_ring_put_def)

text \<open>
  C2, as stated, fails once 2^31 or more bytes are unread: the count \<open>n\<close> of line 495
  is a signed \<open>int\<close>. After 2^31 + 1 pushes it is negative, the inner loop does
  nothing, \<open>get\<close> stays where it is, and the outer loop never ends.
\<close>

theorem kbdsoft_overflow_never_returns:
  "kbdsoft ikbd_hdrs (kbdintr_rx ikbd_hdrs (replicate 2147483649 (0x81, 0x1e)) ring0) kbd0
     = None"
proof -
  have p: "pushed ikbd_hdrs (replicate 2147483649 (0x81, 0x1e)) = replicate 2147483649 0x1e"
    by (subst pushed_replicate) (simp_all add: ikbd_hdrs_def)
  have "kbd_rbget ring0 = kbd_rbput ring0" by (simp add: ring0_def)
  moreover have "length (replicate 2147483649 (0x1e :: byte)) = 2147483649"
    by (simp only: length_replicate)
  ultimately show ?thesis
    by (simp only: kbdintr_rx_pushed p kbdsoft_never_returns)
qed

text \<open>
  C2, amended: when more than 256 and fewer than 2^31 bytes were pushed onto a drained
  ring, the count \<open>kbd_rbput - kbd_rbget\<close> is the (positive) number of bytes pushed,
  \<open>kbdsoft\<close> returns, and it has executed the body of its inner loop on exactly the
  last 256 bytes pushed, in order: these are what the inner loop reads when it is
  started at \<open>get = kbd_rbput - KBD_RING_SIZE\<close> for \<open>KBD_RING_SIZE\<close> bytes.
\<close>

theorem kbdsoft_overflow_resync:
  assumes len: "length (kbd_ring rb) = 256" and e: "kbd_rbget rb = kbd_rbput rb"
    and over: "256 < length (pushed K rds)"
    and L: "length (pushed K rds) < 2147483648"
  shows "sint (kbd_rbput (kbdintr_rx K rds rb) - kbd_rbget (kbdintr_rx K rds rb))
           = int (length (pushed K rds))
       \<and> kbdsoft K (kbdintr_rx K rds rb) d =
           Some ((kbdintr_rx K rds rb)\<lparr>kbd_rbget := kbd_rbput (kbdintr_rx K rds rb)\<rparr>,
                 fold (kbdsoft_code K)
                   (drop (length (pushed K rds) - 256) (pushed K rds)) d)
       \<and> kbdsoft_while K KBD_RING_SIZE (kbd_rbput (kbdintr_rx K rds rb) - KBD_RING_SIZE)
             (kbd_ring (kbdintr_rx K rds rb)) d =
           (kbd_rbput (kbdintr_rx K rds rb),
            fold (kbdsoft_code K) (drop (length (pushed K rds) - 256) (pushed K rds)) d)"
proof -
  let ?bs = "pushed K rds"
  have a: "sint (kbd_rbput (kbdintr_rx K rds rb) - kbd_rbget (kbdintr_rx K rds rb))
           = int (length ?bs)"
    using L by (simp add: kbdintr_rx_pushed fold_put_rbput fold_put_rbget e sint_of_nat32)
  have b: "kbdsoft K (kbdintr_rx K rds rb) d =
           Some ((kbdintr_rx K rds rb)\<lparr>kbd_rbget := kbd_rbput (kbdintr_rx K rds rb)\<rparr>,
                 fold (kbdsoft_code K) (drop (length ?bs - 256) ?bs) d)"
    using kbdsoft_drain [OF len e L, of K d]
    by (simp add: kbdintr_rx_pushed fold_put_rbput)
  have "(of_nat (length ?bs) :: 32 word) - 256 = of_nat (length ?bs - 256)"
    using over by simp
  then have g: "kbd_rbput rb + of_nat (length ?bs) - (256 :: 32 word)
                = kbd_rbput rb + of_nat (length ?bs - 256)"
    by (simp add: add_diff_eq [symmetric])
  have c: "kbdsoft_while K KBD_RING_SIZE (kbd_rbput (kbdintr_rx K rds rb) - KBD_RING_SIZE)
             (kbd_ring (kbdintr_rx K rds rb)) d =
           (kbd_rbput (kbdintr_rx K rds rb),
            fold (kbdsoft_code K) (drop (length ?bs - 256) ?bs) d)"
    using kbdsoft_while_window [OF len, of 256 ?bs K d] over
    by (simp only: kbdintr_rx_pushed fold_put_rbput KBD_RING_SIZE_def g) simp
  from a b c show ?thesis by blast
qed

theorem kbdsoft_overflow_resync_witness:
  "kbdsoft ikbd_hdrs (kbdintr_rx ikbd_hdrs (map (\<lambda>i. (0x81, of_nat i)) [0..<300]) ring0) kbd0 =
     Some ((kbdintr_rx ikbd_hdrs (map (\<lambda>i. (0x81, of_nat i)) [0..<300]) ring0)
             \<lparr>kbd_rbget := 300\<rparr>,
           fold (kbdsoft_code ikbd_hdrs) (map of_nat [44..<300]) kbd0)"
proof -
  have p: "pushed ikbd_hdrs (map (\<lambda>i. (0x81, of_nat i)) [0..<300]) = map of_nat [0..<300]"
    by (subst pushed_map) (simp_all add: ikbd_hdrs_def)
  have h: "length (kbd_ring ring0) = 256" "kbd_rbget ring0 = kbd_rbput ring0"
    "256 < length (pushed ikbd_hdrs (map (\<lambda>i. (0x81, of_nat i)) [0..<300]))"
    "length (pushed ikbd_hdrs (map (\<lambda>i. (0x81, of_nat i)) [0..<300])) < 2147483648"
    by (simp_all add: ring0_def p)
  have d: "drop (length (pushed ikbd_hdrs (map (\<lambda>i. (0x81, of_nat i)) [0..<300])) - 256)
             (pushed ikbd_hdrs (map (\<lambda>i. (0x81, of_nat i)) [0..<300]))
           = (map of_nat [44..<300] :: byte list)"
    by (simp add: p drop_map)
  have q: "kbd_rbput (kbdintr_rx ikbd_hdrs (map (\<lambda>i. (0x81, of_nat i)) [0..<300]) ring0) = 300"
    by (simp only: kbdintr_rx_pushed p fold_put_rbput) (simp add: ring0_def)
  from kbdsoft_overflow_resync [OF h, of kbd0]
  have "kbdsoft ikbd_hdrs
          (kbdintr_rx ikbd_hdrs (map (\<lambda>i. (0x81, of_nat i)) [0..<300]) ring0) kbd0 =
        Some ((kbdintr_rx ikbd_hdrs (map (\<lambda>i. (0x81, of_nat i)) [0..<300]) ring0)
                \<lparr>kbd_rbget :=
                   kbd_rbput (kbdintr_rx ikbd_hdrs (map (\<lambda>i. (0x81, of_nat i)) [0..<300]) ring0)\<rparr>,
              fold (kbdsoft_code ikbd_hdrs)
                (drop (length (pushed ikbd_hdrs (map (\<lambda>i. (0x81, of_nat i)) [0..<300])) - 256)
                   (pushed ikbd_hdrs (map (\<lambda>i. (0x81, of_nat i)) [0..<300]))) kbd0)"
    by blast
  then show ?thesis by (simp only: d q)
qed


section \<open>What kbd_do_modifier leaves alone\<close>

lemma kbd_do_modifier_softc: "softc (snd (kbd_do_modifier K c d)) = softc d"
  by (simp add: kbd_do_modifier_def Let_def if_distrib [where f = snd]
      if_distrib [where f = softc] split del: if_split cong: if_cong)

lemma kbd_do_modifier_out: "out (snd (kbd_do_modifier K c d)) = out d"
  by (simp add: kbd_do_modifier_def Let_def if_distrib [where f = snd]
      if_distrib [where f = out] split del: if_split cong: if_cong)

lemma kbd_do_modifier_time: "time_now (snd (kbd_do_modifier K c d)) = time_now d"
  by (simp add: kbd_do_modifier_def Let_def if_distrib [where f = snd]
      if_distrib [where f = time_now] split del: if_split cong: if_cong)

lemma kbd_do_modifier_sound: "sound (snd (kbd_do_modifier K c d)) = sound d"
  by (simp add: kbd_do_modifier_def Let_def if_distrib [where f = snd]
      if_distrib [where f = sound] split del: if_split cong: if_cong)

lemma kbd_do_modifier_frame:
  "snd (kbd_do_modifier K c d) = d\<lparr>kbd_modifier := kbd_modifier (snd (kbd_do_modifier K c d))\<rparr>"
  by (rule kbd_state.equality)
    (simp_all add: kbd_do_modifier_softc kbd_do_modifier_out kbd_do_modifier_time
      kbd_do_modifier_sound)


section \<open>Packet reassembly\<close>

lemma kbdsoft_code_idle_header:
  "sc_pkg_size (softc d) = 0 \<Longrightarrow> \<not> KBD_IS_KEY K c \<Longrightarrow> kbdsoft_code K c d = kbd_pkg_start d c"
  by (simp add: kbdsoft_code_def)

lemma kbdsoft_code_idle_key:
  "sc_pkg_size (softc d) = 0 \<Longrightarrow> KBD_IS_KEY K c \<Longrightarrow> kbdsoft_code K c d = kbdsoft_key K c d"
  by (simp add: kbdsoft_code_def)

lemma kbdsoft_key_pkg_size: "sc_pkg_size (softc (kbdsoft_key K c d)) = sc_pkg_size (softc d)"
  by (simp add: kbdsoft_key_def emit_def Let_def case_prod_beta kbd_do_modifier_softc)

lemma fold_kbdsoft_code_idle_keys:
  "sc_pkg_size (softc d) = 0 \<Longrightarrow> \<forall>k \<in> set ks. KBD_IS_KEY K k \<Longrightarrow>
   fold (kbdsoft_code K) ks d = fold (kbdsoft_key K) ks d"
  by (induction ks arbitrary: d) (simp_all add: kbdsoft_code_idle_key kbdsoft_key_pkg_size)

lemma fold_kbdsoft_key_pkg_size:
  "sc_pkg_size (softc (fold (kbdsoft_key K) ks d)) = sc_pkg_size (softc d)"
  by (induction ks arbitrary: d) (simp_all add: kbdsoft_key_pkg_size)

lemma kbd_pkg_start_table:
  "sc_pkg_size (softc (kbd_pkg_start d 0xf6)) = 8"
  "sc_pkg_type (softc (kbd_pkg_start d 0xf6)) = KBD_MEM_PKG"
  "sc_pkg_size (softc (kbd_pkg_start d 0xf7)) = 6"
  "sc_pkg_type (softc (kbd_pkg_start d 0xf7)) = KBD_AMS_PKG"
  "sc_pkg_size (softc (kbd_pkg_start d 0xf8)) = 3"
  "sc_pkg_type (softc (kbd_pkg_start d 0xf8)) = KBD_RMS_PKG"
  "sc_pkg_size (softc (kbd_pkg_start d 0xf9)) = 3"
  "sc_pkg_type (softc (kbd_pkg_start d 0xf9)) = KBD_RMS_PKG"
  "sc_pkg_size (softc (kbd_pkg_start d 0xfa)) = 3"
  "sc_pkg_type (softc (kbd_pkg_start d 0xfa)) = KBD_RMS_PKG"
  "sc_pkg_size (softc (kbd_pkg_start d 0xfb)) = 3"
  "sc_pkg_type (softc (kbd_pkg_start d 0xfb)) = KBD_RMS_PKG"
  "sc_pkg_size (softc (kbd_pkg_start d 0xfc)) = 7"
  "sc_pkg_type (softc (kbd_pkg_start d 0xfc)) = KBD_CLK_PKG"
  "sc_pkg_size (softc (kbd_pkg_start d 0xfe)) = 2"
  "sc_pkg_type (softc (kbd_pkg_start d 0xfe)) = KBD_JOY0_PKG"
  "sc_pkg_size (softc (kbd_pkg_start d 0xff)) = 2"
  "sc_pkg_type (softc (kbd_pkg_start d 0xff)) = KBD_JOY1_PKG"
  by (simp_all add: kbd_pkg_start_def)

text \<open>
  C3. With no assembly in progress (\<open>sc_pkg_size = 0\<close>), the header 0xFA followed by
  two arbitrary bytes produces exactly one call of \<open>mouse_soft\<close>, with the package
  \<open>[0xFA, b1, b2]\<close> (the first 3 bytes of \<open>sc_package\<close>), size 3 and type
  \<open>KBD_RMS_PKG\<close>, and leaves \<open>sc_pkg_size = 0\<close>; nothing is called before the
  third byte. The table of \<open>kbd_pkg_start\<close>: 0xF6 memory 8, 0xF7 absolute mouse 6,
  0xF8 to 0xFB relative mouse 3, 0xFC clock 7, 0xFE joystick 0 2, 0xFF joystick 1 2.
\<close>

theorem relative_mouse_packet:
  assumes idle: "sc_pkg_size (softc d) = 0"
    and hdr: "\<not> KBD_IS_KEY K 0xfa"
    and len: "length (sc_package (softc d)) = 20"
  shows "fold (kbdsoft_code K) [0xfa, b1, b2] d =
           d\<lparr>softc := (softc d)\<lparr>sc_pkg_idx := 3,
                   sc_package := (sc_package (softc d))[0 := 0xfa, 1 := b1, 2 := b2],
                   sc_pkg_type := KBD_RMS_PKG, sc_pkg_size := 0\<rparr>,
              out := out d @ [Mouse_soft ((sc_package (softc d))[0 := 0xfa, 1 := b1, 2 := b2])
                               3 KBD_RMS_PKG]\<rparr>
       \<and> take 3 ((sc_package (softc d))[0 := 0xfa, 1 := b1, 2 := b2]) = [0xfa, b1, b2]
       \<and> out (kbdsoft_code K 0xfa d) = out d
       \<and> out (fold (kbdsoft_code K) [0xfa, b1] d) = out d
       \<and> sc_pkg_size (softc (kbd_pkg_start d 0xf6)) = 8
       \<and> sc_pkg_type (softc (kbd_pkg_start d 0xf6)) = KBD_MEM_PKG
       \<and> sc_pkg_size (softc (kbd_pkg_start d 0xf7)) = 6
       \<and> sc_pkg_type (softc (kbd_pkg_start d 0xf7)) = KBD_AMS_PKG
       \<and> sc_pkg_size (softc (kbd_pkg_start d 0xf8)) = 3
       \<and> sc_pkg_type (softc (kbd_pkg_start d 0xf8)) = KBD_RMS_PKG
       \<and> sc_pkg_size (softc (kbd_pkg_start d 0xf9)) = 3
       \<and> sc_pkg_type (softc (kbd_pkg_start d 0xf9)) = KBD_RMS_PKG
       \<and> sc_pkg_size (softc (kbd_pkg_start d 0xfa)) = 3
       \<and> sc_pkg_type (softc (kbd_pkg_start d 0xfa)) = KBD_RMS_PKG
       \<and> sc_pkg_size (softc (kbd_pkg_start d 0xfb)) = 3
       \<and> sc_pkg_type (softc (kbd_pkg_start d 0xfb)) = KBD_RMS_PKG
       \<and> sc_pkg_size (softc (kbd_pkg_start d 0xfc)) = 7
       \<and> sc_pkg_type (softc (kbd_pkg_start d 0xfc)) = KBD_CLK_PKG
       \<and> sc_pkg_size (softc (kbd_pkg_start d 0xfe)) = 2
       \<and> sc_pkg_type (softc (kbd_pkg_start d 0xfe)) = KBD_JOY0_PKG
       \<and> sc_pkg_size (softc (kbd_pkg_start d 0xff)) = 2
       \<and> sc_pkg_type (softc (kbd_pkg_start d 0xff)) = KBD_JOY1_PKG"
proof -
  let ?d1 = "kbdsoft_code K 0xfa d"
  have s1: "?d1 = d\<lparr>softc := (softc d)\<lparr>sc_pkg_idx := 1,
                   sc_package := (sc_package (softc d))[0 := 0xfa],
                   sc_pkg_type := KBD_RMS_PKG, sc_pkg_size := 3\<rparr>\<rparr>"
    using idle hdr by (simp add: kbdsoft_code_idle_header kbd_pkg_start_def)
  let ?d2 = "kbdsoft_code K b1 ?d1"
  have s2: "?d2 = d\<lparr>softc := (softc d)\<lparr>sc_pkg_idx := 2,
                   sc_package := (sc_package (softc d))[0 := 0xfa, 1 := b1],
                   sc_pkg_type := KBD_RMS_PKG, sc_pkg_size := 3\<rparr>\<rparr>"
    unfolding s1 by (simp add: kbdsoft_code_def)
  have s3: "kbdsoft_code K b2 ?d2 = d\<lparr>softc := (softc d)\<lparr>sc_pkg_idx := 3,
                   sc_package := (sc_package (softc d))[0 := 0xfa, 1 := b1, 2 := b2],
                   sc_pkg_type := KBD_RMS_PKG, sc_pkg_size := 0\<rparr>,
              out := out d @ [Mouse_soft ((sc_package (softc d))[0 := 0xfa, 1 := b1, 2 := b2])
                               3 KBD_RMS_PKG]\<rparr>"
    unfolding s2 by (simp add: kbdsoft_code_def emit_def)
  have t: "take 3 ((sc_package (softc d))[0 := 0xfa, 1 := b1, 2 := b2]) = [0xfa, b1, b2]"
  proof (rule nth_equalityI)
    show "length (take 3 ((sc_package (softc d))[0 := 0xfa, 1 := b1, 2 := b2]))
          = length [0xfa, b1, b2]"
      using len by simp
  next
    fix i
    assume "i < length (take 3 ((sc_package (softc d))[0 := 0xfa, 1 := b1, 2 := b2]))"
    then have "i < 3" by simp
    then have "i = 0 \<or> i = 1 \<or> i = 2" by arith
    then show "take 3 ((sc_package (softc d))[0 := 0xfa, 1 := b1, 2 := b2]) ! i
               = [0xfa, b1, b2] ! i"
      using len by auto
  qed
  have o1: "out ?d1 = out d" by (simp add: s1)
  have o2: "out (fold (kbdsoft_code K) [0xfa, b1] d) = out d" by (simp add: s2)
  have f: "fold (kbdsoft_code K) [0xfa, b1, b2] d = kbdsoft_code K b2 ?d2" by simp
  show ?thesis
    unfolding f s3 using t o1 o2 by (simp only: kbd_pkg_start_table simp_thms)
qed


theorem relative_mouse_packet_witness:
  "fold (kbdsoft_code ikbd_hdrs) [0xfa, 0x05, 0xfb] kbd0 =
     kbd0\<lparr>softc := (softc kbd0)\<lparr>sc_pkg_idx := 3,
               sc_package := (replicate 20 0)[0 := 0xfa, 1 := 0x05, 2 := 0xfb],
               sc_pkg_type := KBD_RMS_PKG, sc_pkg_size := 0\<rparr>,
          out := [Mouse_soft ((replicate 20 0)[0 := 0xfa, 1 := 0x05, 2 := 0xfb]) 3 KBD_RMS_PKG]\<rparr>"
  using relative_mouse_packet [of kbd0 ikbd_hdrs "0x05" "0xfb"]
  by (simp add: kbd0_def ikbd_hdrs_def)

lemma kbdsoft_key_package:
  "sc_package (softc (kbdsoft_key K c d)) = sc_package (softc d)"
  by (simp add: kbdsoft_key_def emit_def Let_def case_prod_beta kbd_do_modifier_softc)

lemma fold_kbdsoft_key_package:
  "sc_package (softc (fold (kbdsoft_key K) ks d)) = sc_package (softc d)"
  by (induction ks arbitrary: d) (simp_all add: kbdsoft_key_package)

text \<open>
  C4. With no assembly in progress (\<open>sc_pkg_size = 0\<close>), a byte that is not a key
  and not one of the nine headers of \<open>kbd_pkg_start\<close> is reported by \<open>printf\<close> and
  leaves \<open>sc_pkg_size\<close> at 0; it only overwrites \<open>sc_package[0]\<close> and sets
  \<open>sc_pkg_idx\<close> to 1. Every key byte that follows takes the path of a plain scancode
  (\<open>kbdsoft_key\<close>, the code from line 536 on), and none is stored in \<open>sc_package\<close>.
\<close>

theorem unknown_header_starts_no_assembly:
  assumes idle: "sc_pkg_size (softc d) = 0"
    and hdr: "\<not> KBD_IS_KEY K h"
    and unk: "h \<notin> {0xf6, 0xf7, 0xf8, 0xf9, 0xfa, 0xfb, 0xfc, 0xfe, 0xff}"
    and keys: "\<forall>k \<in> set ks. KBD_IS_KEY K k"
  shows "kbdsoft_code K h d =
           emit (Printf_unknown_packet h)
             (d\<lparr>softc := (softc d)\<lparr>sc_pkg_idx := 1,
                     sc_package := (sc_package (softc d))[0 := h]\<rparr>\<rparr>)
       \<and> sc_pkg_size (softc (kbdsoft_code K h d)) = 0
       \<and> fold (kbdsoft_code K) (h # ks) d = fold (kbdsoft_key K) ks (kbdsoft_code K h d)
       \<and> sc_pkg_size (softc (fold (kbdsoft_code K) (h # ks) d)) = 0
       \<and> sc_package (softc (fold (kbdsoft_code K) (h # ks) d)) = (sc_package (softc d))[0 := h]"
proof -
  have a: "kbdsoft_code K h d =
           emit (Printf_unknown_packet h)
             (d\<lparr>softc := (softc d)\<lparr>sc_pkg_idx := 1,
                     sc_package := (sc_package (softc d))[0 := h]\<rparr>\<rparr>)"
    using idle hdr unk by (simp add: kbdsoft_code_idle_header kbd_pkg_start_def)
  have b: "sc_pkg_size (softc (kbdsoft_code K h d)) = 0"
    using idle by (simp add: a emit_def)
  have c: "fold (kbdsoft_code K) (h # ks) d = fold (kbdsoft_key K) ks (kbdsoft_code K h d)"
    using fold_kbdsoft_code_idle_keys [OF b keys] by simp
  have e: "sc_pkg_size (softc (fold (kbdsoft_code K) (h # ks) d)) = 0"
    by (simp only: c fold_kbdsoft_key_pkg_size b)
  have f: "sc_package (softc (fold (kbdsoft_code K) (h # ks) d)) = (sc_package (softc d))[0 := h]"
    by (simp only: c fold_kbdsoft_key_package) (simp add: a emit_def)
  from a b c e f show ?thesis by blast
qed

theorem unknown_header_starts_no_assembly_witness:
  "fold (kbdsoft_code ikbd_hdrs) [0xfd, 0x1e, 0x9e] kbd0 =
     fold (kbdsoft_key ikbd_hdrs) [0x1e, 0x9e] (kbdsoft_code ikbd_hdrs 0xfd kbd0)
   \<and> sc_pkg_size (softc (fold (kbdsoft_code ikbd_hdrs) [0xfd, 0x1e, 0x9e] kbd0)) = 0
   \<and> sc_package (softc (fold (kbdsoft_code ikbd_hdrs) [0xfd, 0x1e, 0x9e] kbd0))
       = (sc_package (softc kbd0))[0 := 0xfd]"
proof -
  have h: "sc_pkg_size (softc kbd0) = 0" "\<not> KBD_IS_KEY ikbd_hdrs 0xfd"
    "(0xfd :: byte) \<notin> {0xf6, 0xf7, 0xf8, 0xf9, 0xfa, 0xfb, 0xfc, 0xfe, 0xff}"
    "\<forall>k \<in> set [0x1e, 0x9e]. KBD_IS_KEY ikbd_hdrs k"
    by (simp_all add: kbd0_def ikbd_hdrs_def)
  from unknown_header_starts_no_assembly [OF h] show ?thesis by blast
qed

section \<open>Array indices stay in range\<close>

text \<open>
  The model writes \<open>kbd_ring\<close> and \<open>sc_package\<close> with list updates, which do
  nothing out of range, where the C code would write outside the array. The ring index
  is masked to 8 bits. \<open>sc_pkg_size\<close> is only ever set to 0 or to a length of the
  table of \<open>kbd_pkg_start\<close>, so once it is at most 8 it stays so, and the index of a
  store into the 20 bytes of \<open>sc_package\<close> is below it.
\<close>

lemma ring_index_in_range: "unat (w AND KBD_RING_MASK) < 256"
  by (simp add: KBD_RING_MASK_def unat_and_255)

lemma kbd_pkg_start_size_le:
  "sc_pkg_size (softc d) \<le> 8 \<Longrightarrow> sc_pkg_size (softc (kbd_pkg_start d h)) \<le> 8"
  by (simp add: kbd_pkg_start_def emit_def Let_def)

lemma kbdsoft_code_size_le:
  assumes "sc_pkg_size (softc d) \<le> 8"
  shows "sc_pkg_size (softc (kbdsoft_code K c d)) \<le> 8"
proof (cases "sc_pkg_size (softc d) \<noteq> 0 \<and> sc_pkg_idx (softc d) < sc_pkg_size (softc d)")
  case True
  then show ?thesis using assms
    by (simp add: kbdsoft_code_def Let_def emit_def)
next
  case False
  show ?thesis
  proof (cases "KBD_IS_KEY K c")
    case True
    with False assms show ?thesis
      by (auto simp add: kbdsoft_code_def Let_def kbdsoft_key_pkg_size)
  next
    case k: False
    with False assms show ?thesis
      by (auto simp add: kbdsoft_code_def Let_def kbd_pkg_start_size_le)
  qed
qed

lemma package_index_in_range:
  assumes "sc_pkg_size (softc d) \<le> 8"
    and "sc_pkg_idx (softc d) < sc_pkg_size (softc d)"
  shows "unat (sc_pkg_idx (softc d)) < 20"
proof -
  from assms have "sc_pkg_idx (softc d) < 8" by simp
  then have "unat (sc_pkg_idx (softc d)) < unat (8 :: byte)" by (simp only: word_less_nat_alt)
  then show ?thesis by simp
qed


section \<open>The modifier tracker\<close>

lemma bit_0x80: "bit (0x80 :: 8 word) n \<longleftrightarrow> n = 7"
proof -
  have "(0x80 :: 8 word) = 2 ^ 7" by simp
  then show ?thesis by (simp only: bit_exp_iff) auto
qed

lemma bit_0x7f: "bit (0x7f :: 8 word) n \<longleftrightarrow> n < 7"
proof -
  have "(0x7f :: 8 word) = mask 7" by (simp add: mask_eq_exp_minus_1)
  then show ?thesis by (simp only: bit_mask_iff) auto
qed

lemma and_0x7f_id: "(l :: 8 word) AND 0x80 = 0 \<Longrightarrow> l AND 0x7f = l"
proof (rule bit_eqI)
  fix n
  assume a: "l AND 0x80 = 0"
  have "\<not> bit (l AND 0x80) 7" by (simp only: a) simp
  then have "\<not> bit l 7" by (simp only: bit_and_iff bit_0x80) simp
  then have n7: "bit l n \<Longrightarrow> n \<noteq> 7" by auto
  have n8: "bit l n \<Longrightarrow> n < 8" using bit_imp_le_length [of l n] by simp
  have "bit (l AND 0x7f) n \<longleftrightarrow> bit l n \<and> n < 7"
    by (simp only: bit_and_iff bit_0x7f)
  moreover have "bit l n \<Longrightarrow> n < 7" using n7 n8 by fastforce
  ultimately show "bit (l AND 0x7f) n \<longleftrightarrow> bit l n" by blast
qed

lemma or_0x80_and_0x7f: "((l :: 8 word) OR 0x80) AND 0x7f = l AND 0x7f"
  by (rule bit_eqI) (simp only: bit_and_iff bit_or_iff bit_0x7f bit_0x80, auto)

lemma or_0x80_and_0x80: "((l :: 8 word) OR 0x80) AND 0x80 = 0x80"
  by (rule bit_eqI) (simp only: bit_and_iff bit_or_iff bit_0x80, auto)

lemma and_not_absorb: "((m :: 8 word) OR x) AND NOT x = m AND NOT x"
  by (rule bit_eqI) (auto simp: bit_simps)

lemma and_not_disjoint: "(m :: 8 word) AND x = 0 \<Longrightarrow> m AND NOT x = m"
proof (rule bit_eqI)
  fix n
  assume a: "m AND x = 0"
  have "\<not> bit (m AND x) n" by (simp only: a) simp
  moreover have "bit m n \<Longrightarrow> n < 8" using bit_imp_le_length [of m n] by simp
  ultimately show "bit (m AND NOT x) n \<longleftrightarrow> bit m n"
    by (auto simp: bit_simps)
qed


lemma scancode_press: "(l :: byte) AND 0x80 = 0 \<Longrightarrow> KBD_SCANCODE l = l \<and> \<not> KBD_RELEASED l"
  by (simp add: KBD_SCANCODE_def KBD_RELEASED_def and_0x7f_id)

lemma scancode_release:
  "(l :: byte) AND 0x80 = 0 \<Longrightarrow> KBD_SCANCODE (l OR 0x80) = l \<and> KBD_RELEASED (l OR 0x80)"
  by (simp add: KBD_SCANCODE_def KBD_RELEASED_def or_0x80_and_0x7f or_0x80_and_0x80 and_0x7f_id)

lemma hdrs_okD:
  assumes "hdrs_ok K"
  shows "KBD_LEFT_SHIFT K \<noteq> KBD_RIGHT_SHIFT K"
    and "KBD_LEFT_SHIFT K \<noteq> KBD_CTRL K"
    and "KBD_LEFT_SHIFT K \<noteq> KBD_ALT K"
    and "KBD_LEFT_SHIFT K \<noteq> KBD_CAPS_LOCK K"
    and "KBD_RIGHT_SHIFT K \<noteq> KBD_LEFT_SHIFT K"
    and "KBD_RIGHT_SHIFT K \<noteq> KBD_CTRL K"
    and "KBD_RIGHT_SHIFT K \<noteq> KBD_ALT K"
    and "KBD_RIGHT_SHIFT K \<noteq> KBD_CAPS_LOCK K"
    and "KBD_CTRL K \<noteq> KBD_LEFT_SHIFT K"
    and "KBD_CTRL K \<noteq> KBD_RIGHT_SHIFT K"
    and "KBD_CTRL K \<noteq> KBD_ALT K"
    and "KBD_CTRL K \<noteq> KBD_CAPS_LOCK K"
    and "KBD_ALT K \<noteq> KBD_LEFT_SHIFT K"
    and "KBD_ALT K \<noteq> KBD_RIGHT_SHIFT K"
    and "KBD_ALT K \<noteq> KBD_CTRL K"
    and "KBD_ALT K \<noteq> KBD_CAPS_LOCK K"
    and "KBD_CAPS_LOCK K \<noteq> KBD_LEFT_SHIFT K"
    and "KBD_CAPS_LOCK K \<noteq> KBD_RIGHT_SHIFT K"
    and "KBD_CAPS_LOCK K \<noteq> KBD_CTRL K"
    and "KBD_CAPS_LOCK K \<noteq> KBD_ALT K"
    and "KBD_MOD_LSHIFT K \<noteq> 0"
    and "KBD_MOD_RSHIFT K \<noteq> 0"
    and "KBD_MOD_CTRL K \<noteq> 0"
    and "KBD_MOD_ALT K \<noteq> 0"
    and "KBD_MOD_CAPS K \<noteq> 0"
    and "KBD_LEFT_SHIFT K AND 0x80 = 0"
    and "KBD_RIGHT_SHIFT K AND 0x80 = 0"
    and "KBD_CTRL K AND 0x80 = 0"
    and "KBD_ALT K AND 0x80 = 0"
    and "KBD_CAPS_LOCK K AND 0x80 = 0"
  using assms by (auto simp: hdrs_ok_def)

lemma kbd_do_modifier_lshift:
  "KBD_SCANCODE c = KBD_LEFT_SHIFT K \<Longrightarrow> KBD_MOD_LSHIFT K \<noteq> 0 \<Longrightarrow>
   kbd_do_modifier K c d =
     (1, if KBD_RELEASED c then d\<lparr>kbd_modifier := kbd_modifier d AND NOT (KBD_MOD_LSHIFT K)\<rparr>
         else d\<lparr>kbd_modifier := kbd_modifier d OR KBD_MOD_LSHIFT K\<rparr>)"
  by (simp add: kbd_do_modifier_def Let_def)

lemma kbd_do_modifier_caps:
  "KBD_SCANCODE c = KBD_CAPS_LOCK K \<Longrightarrow> hdrs_ok K \<Longrightarrow>
   kbd_do_modifier K c d =
     (1, if \<not> KBD_RELEASED c then d\<lparr>kbd_modifier := kbd_modifier d XOR KBD_MOD_CAPS K\<rparr>
         else d)"
  by (simp add: kbd_do_modifier_def hdrs_okD Let_def)

lemma kbd_do_modifier_other:
  "\<not> modifier_code K c \<Longrightarrow> kbd_do_modifier K c d = (0, d)"
  by (simp add: kbd_do_modifier_def modifier_code_def Let_def)

lemma kbd_do_modifier_ret:
  assumes ok: "hdrs_ok K" and m: "modifier_code K c"
  shows "fst (kbd_do_modifier K c d) = 1"
proof -
  from m consider "KBD_SCANCODE c = KBD_LEFT_SHIFT K" | "KBD_SCANCODE c = KBD_RIGHT_SHIFT K"
    | "KBD_SCANCODE c = KBD_CTRL K" | "KBD_SCANCODE c = KBD_ALT K"
    | "KBD_SCANCODE c = KBD_CAPS_LOCK K"
    unfolding modifier_code_def by blast
  then show ?thesis
  proof cases
    case 1
    with ok show ?thesis by (simp add: kbd_do_modifier_def hdrs_okD Let_def)
  next
    case 2
    with ok show ?thesis by (simp add: kbd_do_modifier_def hdrs_okD Let_def)
  next
    case 3
    with ok show ?thesis by (simp add: kbd_do_modifier_def hdrs_okD Let_def)
  next
    case 4
    with ok show ?thesis by (simp add: kbd_do_modifier_def hdrs_okD Let_def)
  next
    case 5
    with ok show ?thesis by (simp add: kbd_do_modifier_caps)
  qed
qed


text \<open>
  C5, as stated, fails: a left-shift press followed by a left-shift release does not
  restore the mask when the left-shift bit was already set. After one press from the
  initial state the mask is 1; a further press and a release leave it 0.
\<close>

theorem lshift_press_release_counterexample:
  "kbd_modifier (snd (kbd_do_modifier ikbd_hdrs 0x2a kbd0)) = 1
   \<and> kbd_modifier (snd (kbd_do_modifier ikbd_hdrs 0xaa
        (snd (kbd_do_modifier ikbd_hdrs 0x2a (snd (kbd_do_modifier ikbd_hdrs 0x2a kbd0))))))
      = 0"
  by (simp add: kbd_do_modifier_def ikbd_hdrs_def kbd0_def KBD_SCANCODE_def KBD_RELEASED_def
      Let_def)


text \<open>
  C5, amended. For header values as a C compiler accepts them (\<open>hdrs_ok\<close>):
  a left-shift press followed by a left-shift release clears the left-shift bit and
  changes nothing else, so it restores the state exactly when that bit was clear before
  the press; each caps-lock press toggles the caps bit and a caps-lock release changes
  nothing, so two presses, with or without a release in between, restore the state;
  a code of one of the five keys returns 1, any other code changes nothing and returns 0.
\<close>

theorem modifier_tracker:
  assumes ok: "hdrs_ok K"
  shows "snd (kbd_do_modifier K (KBD_LEFT_SHIFT K OR 0x80)
                (snd (kbd_do_modifier K (KBD_LEFT_SHIFT K) d)))
           = d\<lparr>kbd_modifier := kbd_modifier d AND NOT (KBD_MOD_LSHIFT K)\<rparr>
       \<and> (if kbd_modifier d AND KBD_MOD_LSHIFT K = 0
          then snd (kbd_do_modifier K (KBD_LEFT_SHIFT K OR 0x80)
                      (snd (kbd_do_modifier K (KBD_LEFT_SHIFT K) d))) = d
          else snd (kbd_do_modifier K (KBD_LEFT_SHIFT K OR 0x80)
                      (snd (kbd_do_modifier K (KBD_LEFT_SHIFT K) d))) \<noteq> d)
       \<and> kbd_do_modifier K (KBD_CAPS_LOCK K) d
           = (1, d\<lparr>kbd_modifier := kbd_modifier d XOR KBD_MOD_CAPS K\<rparr>)
       \<and> kbd_do_modifier K (KBD_CAPS_LOCK K OR 0x80) d = (1, d)
       \<and> snd (kbd_do_modifier K (KBD_CAPS_LOCK K)
                (snd (kbd_do_modifier K (KBD_CAPS_LOCK K) d))) = d
       \<and> snd (kbd_do_modifier K (KBD_CAPS_LOCK K)
                (snd (kbd_do_modifier K (KBD_CAPS_LOCK K OR 0x80)
                       (snd (kbd_do_modifier K (KBD_CAPS_LOCK K) d))))) = d
       \<and> (if modifier_code K c then fst (kbd_do_modifier K c d) = 1
          else kbd_do_modifier K c d = (0, d))"
proof -
  have ls: "KBD_LEFT_SHIFT K AND 0x80 = 0" and cl: "KBD_CAPS_LOCK K AND 0x80 = 0"
    and lm: "KBD_MOD_LSHIFT K \<noteq> 0"
    using ok by (simp_all add: hdrs_okD)
  have p: "kbd_do_modifier K (KBD_LEFT_SHIFT K) d
           = (1, d\<lparr>kbd_modifier := kbd_modifier d OR KBD_MOD_LSHIFT K\<rparr>)"
    using scancode_press [OF ls] lm by (simp add: kbd_do_modifier_lshift)
  have r: "\<And>e. kbd_do_modifier K (KBD_LEFT_SHIFT K OR 0x80) e
           = (1, e\<lparr>kbd_modifier := kbd_modifier e AND NOT (KBD_MOD_LSHIFT K)\<rparr>)"
    using scancode_release [OF ls] lm by (simp add: kbd_do_modifier_lshift)
  have a: "snd (kbd_do_modifier K (KBD_LEFT_SHIFT K OR 0x80)
                (snd (kbd_do_modifier K (KBD_LEFT_SHIFT K) d)))
           = d\<lparr>kbd_modifier := kbd_modifier d AND NOT (KBD_MOD_LSHIFT K)\<rparr>"
    by (simp add: p r and_not_absorb)
  have b: "kbd_modifier d AND KBD_MOD_LSHIFT K = 0 \<Longrightarrow>
           d\<lparr>kbd_modifier := kbd_modifier d AND NOT (KBD_MOD_LSHIFT K)\<rparr> = d"
    by (simp add: and_not_disjoint)
  have b': "kbd_modifier d AND KBD_MOD_LSHIFT K \<noteq> 0 \<Longrightarrow>
           d\<lparr>kbd_modifier := kbd_modifier d AND NOT (KBD_MOD_LSHIFT K)\<rparr> \<noteq> d"
  proof
    assume n: "kbd_modifier d AND KBD_MOD_LSHIFT K \<noteq> 0"
      and "d\<lparr>kbd_modifier := kbd_modifier d AND NOT (KBD_MOD_LSHIFT K)\<rparr> = d"
    then have "kbd_modifier (d\<lparr>kbd_modifier := kbd_modifier d AND NOT (KBD_MOD_LSHIFT K)\<rparr>)
               = kbd_modifier d" by simp
    then have "kbd_modifier d AND NOT (KBD_MOD_LSHIFT K) = kbd_modifier d" by simp
    then have "kbd_modifier d AND KBD_MOD_LSHIFT K
               = (kbd_modifier d AND NOT (KBD_MOD_LSHIFT K)) AND KBD_MOD_LSHIFT K" by simp
    also have "\<dots> = 0" by (simp add: and.assoc)
    finally show False using n by simp
  qed
  have cp: "\<And>e. kbd_do_modifier K (KBD_CAPS_LOCK K) e
           = (1, e\<lparr>kbd_modifier := kbd_modifier e XOR KBD_MOD_CAPS K\<rparr>)"
    using scancode_press [OF cl] ok by (simp add: kbd_do_modifier_caps)
  have cr: "\<And>e. kbd_do_modifier K (KBD_CAPS_LOCK K OR 0x80) e = (1, e)"
    using scancode_release [OF cl] ok by (simp add: kbd_do_modifier_caps)
  have x: "(kbd_modifier d XOR KBD_MOD_CAPS K) XOR KBD_MOD_CAPS K = kbd_modifier d"
    by (simp add: xor.assoc)
  have c2: "snd (kbd_do_modifier K (KBD_CAPS_LOCK K)
                (snd (kbd_do_modifier K (KBD_CAPS_LOCK K) d))) = d"
    by (simp add: cp x)
  have c3: "snd (kbd_do_modifier K (KBD_CAPS_LOCK K)
                (snd (kbd_do_modifier K (KBD_CAPS_LOCK K OR 0x80)
                       (snd (kbd_do_modifier K (KBD_CAPS_LOCK K) d))))) = d"
    by (simp add: cp cr x)
  have m: "if modifier_code K c then fst (kbd_do_modifier K c d) = 1
           else kbd_do_modifier K c d = (0, d)"
    using ok by (simp add: kbd_do_modifier_ret kbd_do_modifier_other)
  from a b b' have ab: "if kbd_modifier d AND KBD_MOD_LSHIFT K = 0
          then snd (kbd_do_modifier K (KBD_LEFT_SHIFT K OR 0x80)
                      (snd (kbd_do_modifier K (KBD_LEFT_SHIFT K) d))) = d
          else snd (kbd_do_modifier K (KBD_LEFT_SHIFT K OR 0x80)
                      (snd (kbd_do_modifier K (KBD_LEFT_SHIFT K) d))) \<noteq> d"
    by (simp only: a split: if_split) blast
  from a ab cp [of d] cr [of d] c2 c3 m show ?thesis by blast
qed

theorem modifier_tracker_witness:
  "snd (kbd_do_modifier ikbd_hdrs (0x2a OR 0x80) (snd (kbd_do_modifier ikbd_hdrs 0x2a kbd0)))
     = kbd0
   \<and> kbd_do_modifier ikbd_hdrs 0x3a kbd0 = (1, kbd0\<lparr>kbd_modifier := 0x10\<rparr>)
   \<and> snd (kbd_do_modifier ikbd_hdrs 0x3a (snd (kbd_do_modifier ikbd_hdrs 0x3a kbd0))) = kbd0
   \<and> kbd_do_modifier ikbd_hdrs 0x1e kbd0 = (0, kbd0)
   \<and> fst (kbd_do_modifier ikbd_hdrs 0xb8 kbd0) = 1"
proof -
  have ok: "hdrs_ok ikbd_hdrs" by (simp add: hdrs_ok_def ikbd_hdrs_def)
  have k: "KBD_LEFT_SHIFT ikbd_hdrs = 0x2a" "KBD_CAPS_LOCK ikbd_hdrs = 0x3a"
    "KBD_MOD_LSHIFT ikbd_hdrs = 1" "KBD_MOD_CAPS ikbd_hdrs = 0x10" "kbd_modifier kbd0 = 0"
    "\<not> modifier_code ikbd_hdrs 0x1e" "modifier_code ikbd_hdrs 0xb8"
    by (simp_all add: ikbd_hdrs_def kbd0_def modifier_code_def KBD_SCANCODE_def)
  from modifier_tracker [OF ok, of kbd0 "0x1e"] modifier_tracker [OF ok, of kbd0 "0xb8"]
  show ?thesis by (simp add: k)
qed


section \<open>The dispatcher\<close>

lemma kbdsoft_key_bridge:
  assumes "sc_pollingmode (softc d) = 0" and "sc_wskbddev (softc d) = Some dev"
    and "sc_event_mode (softc d) = 0"
  shows "kbdsoft_key K c d =
           emit (Wskbd_input dev
                  (if KBD_RELEASED c then WSCONS_EVENT_KEY_UP else WSCONS_EVENT_KEY_DOWN)
                  (KBD_SCANCODE c)) d"
  using assms by (simp add: kbdsoft_key_def)

lemma fold_bridge:
  assumes "sc_pkg_size (softc d) = 0" and "\<forall>k \<in> set ks. KBD_IS_KEY K k"
    and "sc_pollingmode (softc d) = 0" and "sc_wskbddev (softc d) = Some dev"
    and "sc_event_mode (softc d) = 0"
  shows "fold (kbdsoft_code K) ks d =
           d\<lparr>out := out d @ map (\<lambda>c. Wskbd_input dev
                  (if KBD_RELEASED c then WSCONS_EVENT_KEY_UP else WSCONS_EVENT_KEY_DOWN)
                  (KBD_SCANCODE c)) ks\<rparr>"
  using assms
proof (induction ks arbitrary: d)
  case Nil
  then show ?case by simp
next
  case (Cons c cs)
  let ?e = "Wskbd_input dev
              (if KBD_RELEASED c then WSCONS_EVENT_KEY_UP else WSCONS_EVENT_KEY_DOWN)
              (KBD_SCANCODE c)"
  have s: "kbdsoft_code K c d = emit ?e d"
    using Cons.prems by (simp add: kbdsoft_code_idle_key kbdsoft_key_bridge)
  have "fold (kbdsoft_code K) cs (emit ?e d) =
          (emit ?e d)\<lparr>out := out (emit ?e d) @ map (\<lambda>c. Wskbd_input dev
                  (if KBD_RELEASED c then WSCONS_EVENT_KEY_UP else WSCONS_EVENT_KEY_DOWN)
                  (KBD_SCANCODE c)) cs\<rparr>"
    using Cons.prems by (intro Cons.IH) (simp_all add: emit_def)
  then show ?case by (simp add: s emit_def)
qed

lemma kbdsoft_key_tty:
  assumes ok: "hdrs_ok K" and "sc_wskbddev (softc d) = None" and "sc_event_mode (softc d) = 0"
  shows "kbdsoft_key K c d =
           (if modifier_code K c then snd (kbd_do_modifier K c d)
            else emit (Ite_filter c ITEFILT_TTY) d)"
proof (cases "modifier_code K c")
  case True
  then have "fst (kbd_do_modifier K c d) = 1" using ok by (rule kbd_do_modifier_ret [rotated])
  then show ?thesis using assms True
    by (simp add: kbdsoft_key_def case_prod_beta kbd_do_modifier_softc)
next
  case False
  then show ?thesis using assms
    by (simp add: kbdsoft_key_def kbd_do_modifier_other)
qed

lemma fold_tty:
  assumes ok: "hdrs_ok K"
  shows "sc_pkg_size (softc d) = 0 \<Longrightarrow> \<forall>k \<in> set ks. KBD_IS_KEY K k \<Longrightarrow>
         sc_wskbddev (softc d) = None \<Longrightarrow> sc_event_mode (softc d) = 0 \<Longrightarrow>
         out (fold (kbdsoft_code K) ks d) =
           out d @ map (\<lambda>c. Ite_filter c ITEFILT_TTY) (filter (\<lambda>c. \<not> modifier_code K c) ks)
         \<and> softc (fold (kbdsoft_code K) ks d) = softc d"
proof (induction ks arbitrary: d)
  case Nil
  then show ?case by simp
next
  case (Cons c cs)
  let ?d = "kbdsoft_code K c d"
  have s: "?d = (if modifier_code K c then snd (kbd_do_modifier K c d)
                 else emit (Ite_filter c ITEFILT_TTY) d)"
    using Cons.prems by (simp add: kbdsoft_code_idle_key kbdsoft_key_tty [OF ok])
  have sc: "softc ?d = softc d"
    by (simp add: s emit_def kbd_do_modifier_softc)
  have o: "out ?d = (if modifier_code K c then out d else out d @ [Ite_filter c ITEFILT_TTY])"
    by (simp add: s emit_def kbd_do_modifier_out)
  have "out (fold (kbdsoft_code K) cs ?d) =
           out ?d @ map (\<lambda>c. Ite_filter c ITEFILT_TTY) (filter (\<lambda>c. \<not> modifier_code K c) cs)
         \<and> softc (fold (kbdsoft_code K) cs ?d) = softc ?d"
    using Cons.prems by (intro Cons.IH) (simp_all add: sc)
  then show ?case by (simp add: sc o)
qed

text \<open>
  C6. For key bytes met with no assembly in progress: when a wskbd is attached, polling
  mode is off and event mode is off, every byte is passed to \<open>wskbd_input\<close> with its
  scancode and key-up or key-down, in order, and nothing else changes (the modifier
  mask is not touched). With event mode off and no wskbd attached, the calls of
  \<open>ite_filter\<close> are exactly the bytes that are not modifier codes, each once and in
  order; this also holds for the bytes a run of \<open>kbdsoft\<close> takes from the ring.
\<close>

theorem dispatch_routing:
  assumes ok: "hdrs_ok K" and idle: "sc_pkg_size (softc d) = 0"
    and keys: "\<forall>k \<in> set ks. KBD_IS_KEY K k"
  shows "(sc_pollingmode (softc d) = 0 \<and> sc_wskbddev (softc d) = Some dev
            \<and> sc_event_mode (softc d) = 0 \<longrightarrow>
          fold (kbdsoft_code K) ks d =
            d\<lparr>out := out d @ map (\<lambda>c. Wskbd_input dev
                   (if KBD_RELEASED c then WSCONS_EVENT_KEY_UP else WSCONS_EVENT_KEY_DOWN)
                   (KBD_SCANCODE c)) ks\<rparr>)
       \<and> (sc_wskbddev (softc d) = None \<and> sc_event_mode (softc d) = 0 \<longrightarrow>
          out (fold (kbdsoft_code K) ks d) =
            out d @ map (\<lambda>c. Ite_filter c ITEFILT_TTY) (filter (\<lambda>c. \<not> modifier_code K c) ks)
          \<and> softc (fold (kbdsoft_code K) ks d) = softc d)
       \<and> (sc_wskbddev (softc d) = None \<and> sc_event_mode (softc d) = 0
            \<and> length (kbd_ring rb) = 256 \<and> kbd_rbget rb = kbd_rbput rb
            \<and> pushed K rds = ks \<and> length ks \<le> 256 \<longrightarrow>
          map_option (\<lambda>r. out (snd r)) (kbdsoft K (kbdintr_rx K rds rb) d) =
            Some (out d @ map (\<lambda>c. Ite_filter c ITEFILT_TTY)
                            (filter (\<lambda>c. \<not> modifier_code K c) ks)))"
proof (intro conjI impI)
  assume "sc_pollingmode (softc d) = 0 \<and> sc_wskbddev (softc d) = Some dev
            \<and> sc_event_mode (softc d) = 0"
  then show "fold (kbdsoft_code K) ks d =
            d\<lparr>out := out d @ map (\<lambda>c. Wskbd_input dev
                   (if KBD_RELEASED c then WSCONS_EVENT_KEY_UP else WSCONS_EVENT_KEY_DOWN)
                   (KBD_SCANCODE c)) ks\<rparr>"
    using idle keys by (intro fold_bridge) simp_all
next
  assume a: "sc_wskbddev (softc d) = None \<and> sc_event_mode (softc d) = 0"
  from fold_tty [OF ok idle keys] a
  show "out (fold (kbdsoft_code K) ks d) =
            out d @ map (\<lambda>c. Ite_filter c ITEFILT_TTY) (filter (\<lambda>c. \<not> modifier_code K c) ks)"
    by simp
  from fold_tty [OF ok idle keys] a
  show "softc (fold (kbdsoft_code K) ks d) = softc d" by simp
next
  assume a: "sc_wskbddev (softc d) = None \<and> sc_event_mode (softc d) = 0
            \<and> length (kbd_ring rb) = 256 \<and> kbd_rbget rb = kbd_rbput rb
            \<and> pushed K rds = ks \<and> length ks \<le> 256"
  then have "kbdsoft K (fold kbd_ring_put ks rb) d =
           Some ((fold kbd_ring_put ks rb)\<lparr>kbd_rbget := kbd_rbput rb + of_nat (length ks)\<rparr>,
                 fold (kbdsoft_code K) (drop (length ks - 256) ks) d)"
    by (intro kbdsoft_drain) simp_all
  moreover have "drop (length ks - 256) ks = ks" using a by simp
  moreover have "kbdintr_rx K rds rb = fold kbd_ring_put ks rb"
    using a by (simp add: kbdintr_rx_pushed)
  ultimately show "map_option (\<lambda>r. out (snd r)) (kbdsoft K (kbdintr_rx K rds rb) d) =
            Some (out d @ map (\<lambda>c. Ite_filter c ITEFILT_TTY)
                            (filter (\<lambda>c. \<not> modifier_code K c) ks))"
    using fold_tty [OF ok idle keys] a by simp
qed

theorem dispatch_routing_witness:
  "fold (kbdsoft_code ikbd_hdrs) [0x1e, 0x2a, 0x9e] (kbd0\<lparr>softc := (softc kbd0)\<lparr>sc_wskbddev := Some 0\<rparr>\<rparr>)
     = kbd0\<lparr>softc := (softc kbd0)\<lparr>sc_wskbddev := Some 0\<rparr>,
            out := [Wskbd_input 0 WSCONS_EVENT_KEY_DOWN 0x1e,
                    Wskbd_input 0 WSCONS_EVENT_KEY_DOWN 0x2a,
                    Wskbd_input 0 WSCONS_EVENT_KEY_UP 0x1e]\<rparr>
   \<and> out (fold (kbdsoft_code ikbd_hdrs) [0x1e, 0x2a, 0x9e] kbd0)
       = [Ite_filter 0x1e ITEFILT_TTY, Ite_filter 0x9e ITEFILT_TTY]
   \<and> map_option (\<lambda>r. out (snd r))
        (kbdsoft ikbd_hdrs (kbdintr_rx ikbd_hdrs [(0x81, 0x1e), (0x81, 0x2a), (0x81, 0x9e)] ring0)
           kbd0)
       = Some [Ite_filter 0x1e ITEFILT_TTY, Ite_filter 0x9e ITEFILT_TTY]"
proof -
  have ok: "hdrs_ok ikbd_hdrs" by (simp add: hdrs_ok_def ikbd_hdrs_def)
  have k: "\<forall>k \<in> set [0x1e, 0x2a, 0x9e]. KBD_IS_KEY ikbd_hdrs k"
    by (simp add: ikbd_hdrs_def)
  have i1: "sc_pkg_size (softc (kbd0\<lparr>softc := (softc kbd0)\<lparr>sc_wskbddev := Some 0\<rparr>\<rparr>)) = 0"
    and i2: "sc_pkg_size (softc kbd0) = 0"
    by (simp_all add: kbd0_def)
  have m: "\<not> modifier_code ikbd_hdrs 0x1e" "modifier_code ikbd_hdrs 0x2a"
    "\<not> modifier_code ikbd_hdrs 0x9e"
    by (simp_all add: modifier_code_def ikbd_hdrs_def KBD_SCANCODE_def)
  have r: "\<not> KBD_RELEASED 0x1e" "\<not> KBD_RELEASED 0x2a" "KBD_RELEASED 0x9e"
    "KBD_SCANCODE 0x1e = 0x1e" "KBD_SCANCODE 0x2a = 0x2a" "KBD_SCANCODE 0x9e = 0x1e"
    by (simp_all add: KBD_SCANCODE_def KBD_RELEASED_def)
  have p: "pushed ikbd_hdrs [(0x81, 0x1e), (0x81, 0x2a), (0x81, 0x9e)] = [0x1e, 0x2a, 0x9e]"
    by (simp add: pushed_def ikbd_hdrs_def)
  have s: "sc_pollingmode (softc kbd0) = 0" "sc_event_mode (softc kbd0) = 0"
    "sc_wskbddev (softc kbd0) = None" "out kbd0 = []"
    "length (kbd_ring ring0) = 256" "kbd_rbget ring0 = kbd_rbput ring0"
    by (simp_all add: kbd0_def ring0_def)
  from dispatch_routing [OF ok i1 k, of 0 ring0 "[]"]
    dispatch_routing [OF ok i2 k, of 0 ring0 "[(0x81, 0x1e), (0x81, 0x2a), (0x81, 0x9e)]"]
  show ?thesis by (simp add: s m r p)
qed


lemma kbdsoft_key_event_mode:
  assumes "sc_event_mode (softc d) \<noteq> 0"
  shows "kbdsoft_key K c d =
     (let d1 = snd (kbd_do_modifier K c d);
          ev = sc_events (softc d)
      in if (ev_put ev + 1) mod EV_QSIZE K = ev_get ev
         then d1\<lparr>out := out d @ [Log_warning ''keyboard event queue overflow'']\<rparr>
         else d1\<lparr>softc := (softc d)\<lparr>sc_events :=
                     ev\<lparr>ev_q := (ev_q ev)[ev_put ev :=
                            \<lparr>fe_id = KBD_SCANCODE c,
                             fe_value = (if KBD_RELEASED c then VKEY_UP else VKEY_DOWN),
                             fe_time = time_now d\<rparr>],
                        ev_put := (ev_put ev + 1) mod EV_QSIZE K\<rparr>\<rparr>,
                 out := out d @ [Ev_wakeup]\<rparr>)"
  using assms
  by (simp add: kbdsoft_key_def case_prod_beta Let_def emit_def kbd_do_modifier_softc
      kbd_do_modifier_out kbd_do_modifier_time)

text \<open>
  C7. In event mode (\<open>sc_event_mode \<noteq> 0\<close>) a key byte met with no assembly in
  progress first passes through \<open>kbd_do_modifier\<close> and is then queued: the entry at
  \<open>ev_put\<close> gets the scancode, up or down, and the current time, \<open>ev_put\<close> advances
  modulo \<open>EV_QSIZE\<close>, and the reader is woken. When the queue is full
  (\<open>(ev_put + 1) % EV_QSIZE = ev_get\<close>) the only effect besides the modifier mask is
  the warning: the whole \<open>kbd_softc\<close>, and with it \<open>ev_put\<close>, \<open>ev_get\<close> and the
  entries, is unchanged, and nothing else is called.
\<close>

theorem event_mode_enqueue:
  assumes idle: "sc_pkg_size (softc d) = 0" and key: "KBD_IS_KEY K c"
    and ev: "sc_event_mode (softc d) \<noteq> 0"
  shows "(if (ev_put (sc_events (softc d)) + 1) mod EV_QSIZE K = ev_get (sc_events (softc d))
          then softc (kbdsoft_code K c d) = softc d
             \<and> out (kbdsoft_code K c d)
                 = out d @ [Log_warning ''keyboard event queue overflow'']
          else sc_events (softc (kbdsoft_code K c d)) =
                 (sc_events (softc d))
                   \<lparr>ev_q := (ev_q (sc_events (softc d)))[ev_put (sc_events (softc d)) :=
                            \<lparr>fe_id = KBD_SCANCODE c,
                             fe_value = (if KBD_RELEASED c then VKEY_UP else VKEY_DOWN),
                             fe_time = time_now d\<rparr>],
                     ev_put := (ev_put (sc_events (softc d)) + 1) mod EV_QSIZE K\<rparr>
             \<and> softc (kbdsoft_code K c d)
                 = (softc d)\<lparr>sc_events := sc_events (softc (kbdsoft_code K c d))\<rparr>
             \<and> out (kbdsoft_code K c d) = out d @ [Ev_wakeup])
       \<and> kbd_modifier (kbdsoft_code K c d) = kbd_modifier (snd (kbd_do_modifier K c d))
       \<and> sound (kbdsoft_code K c d) = sound d
       \<and> time_now (kbdsoft_code K c d) = time_now d"
proof -
  have "kbdsoft_code K c d = kbdsoft_key K c d"
    using idle key by (rule kbdsoft_code_idle_key)
  then show ?thesis
    by (simp add: kbdsoft_key_event_mode [OF ev] Let_def kbd_do_modifier_softc
        kbd_do_modifier_sound kbd_do_modifier_time)
qed

theorem event_mode_enqueue_witness:
  "sc_events (softc (kbdsoft_code ikbd_hdrs 0x9e kbd_ev)) =
     (sc_events (softc kbd_ev))
       \<lparr>ev_q := (ev_q (sc_events (softc kbd_ev)))[0 :=
                 \<lparr>fe_id = 0x1e, fe_value = VKEY_UP, fe_time = 1000\<rparr>],
        ev_put := 1\<rparr>
   \<and> out (kbdsoft_code ikbd_hdrs 0x9e kbd_ev) = [Ev_wakeup]
   \<and> softc (kbdsoft_code ikbd_hdrs 0x1e
        (kbd_ev\<lparr>softc := (softc kbd_ev)\<lparr>sc_events :=
                   (sc_events (softc kbd_ev))\<lparr>ev_put := 255\<rparr>\<rparr>\<rparr>))
       = (softc kbd_ev)\<lparr>sc_events := (sc_events (softc kbd_ev))\<lparr>ev_put := 255\<rparr>\<rparr>
   \<and> out (kbdsoft_code ikbd_hdrs 0x1e
        (kbd_ev\<lparr>softc := (softc kbd_ev)\<lparr>sc_events :=
                   (sc_events (softc kbd_ev))\<lparr>ev_put := 255\<rparr>\<rparr>\<rparr>))
       = [Log_warning ''keyboard event queue overflow'']"
proof -
  let ?full = "kbd_ev\<lparr>softc := (softc kbd_ev)\<lparr>sc_events :=
                   (sc_events (softc kbd_ev))\<lparr>ev_put := 255\<rparr>\<rparr>\<rparr>"
  have h: "sc_pkg_size (softc kbd_ev) = 0" "KBD_IS_KEY ikbd_hdrs 0x9e"
    "sc_event_mode (softc kbd_ev) \<noteq> 0"
    and h': "sc_pkg_size (softc ?full) = 0" "KBD_IS_KEY ikbd_hdrs 0x1e"
    "sc_event_mode (softc ?full) \<noteq> 0"
    by (simp_all add: kbd_ev_def kbd0_def ikbd_hdrs_def)
  have v: "ev_put (sc_events (softc kbd_ev)) = 0" "ev_get (sc_events (softc kbd_ev)) = 0"
    "EV_QSIZE ikbd_hdrs = 256" "time_now kbd_ev = 1000" "out kbd_ev = []"
    "KBD_SCANCODE 0x9e = 0x1e" "KBD_RELEASED 0x9e"
    by (simp_all add: kbd_ev_def kbd0_def ikbd_hdrs_def KBD_SCANCODE_def KBD_RELEASED_def)
  from event_mode_enqueue [OF h] event_mode_enqueue [OF h']
  show ?thesis by (simp add: v)
qed


section \<open>The bell codec\<close>

lemma join12:
  "ucast (ucast (f AND 0xff :: 32 word) :: 8 word)
     OR push_bit 8 (ucast (ucast (drop_bit 8 f AND 0xf :: 32 word) :: 8 word) :: 32 word)
   = take_bit 12 f"
proof -
  have m: "(0xff :: 32 word) = mask 8" "(0xf :: 32 word) = mask 4"
    by (simp_all add: mask_eq_exp_minus_1)
  show ?thesis
    unfolding m
    by (rule bit_eqI) (auto simp add: bit_simps)
qed

lemma join16:
  "ucast (ucast (t AND 0xff :: 32 word) :: 8 word)
     OR push_bit 8 (ucast (ucast (drop_bit 8 t AND 0xff :: 32 word) :: 8 word) :: 32 word)
   = take_bit 16 t"
proof -
  have m: "(0xff :: 32 word) = mask 8"
    by (simp_all add: mask_eq_exp_minus_1)
  show ?thesis
    unfolding m
    by (rule bit_eqI) (auto simp add: bit_simps)
qed


lemma bell_fields:
  assumes len: "length (sound d) = 14"
  shows "kbd_bell_gparms (kbd_bell_sparms v p dur d) =
     (let f = KBDBELLCLOCK div (if (if p > 10 then p else 10) > 20000 then 20000
                                else (if p > 10 then p else 10));
          t = (dur * 1000) div KBDBELLDURATION
      in if take_bit 12 f = 0 then None
         else Some (0, KBDBELLCLOCK div take_bit 12 f,
                    (take_bit 16 t * KBDBELLDURATION) div 1000))"
proof -
  define f where "f = KBDBELLCLOCK div (if (if p > 10 then p else 10) > 20000 then 20000
                                else (if p > 10 then p else 10))"
  define t where "t = (dur * 1000) div KBDBELLDURATION"
  have s: "sound (kbd_bell_sparms v p dur d) =
           (sound d)[0 := ucast (f AND 0xff), 1 := ucast (drop_bit 8 f AND 0xf),
             2 := ucast ((f - 1) AND 0xff), 3 := ucast (drop_bit 8 (f - 1) AND 0xf),
             4 := ucast ((f - 1 + 2) AND 0xff), 5 := ucast (drop_bit 8 (f - 1 + 2) AND 0xf),
             11 := ucast (t AND 0xff), 12 := ucast (drop_bit 8 t AND 0xff), 13 := 0x03]"
    unfolding kbd_bell_sparms_def f_def t_def Let_def by simp
  have n: "sound (kbd_bell_sparms v p dur d) ! 0 = ucast (f AND 0xff)"
    "sound (kbd_bell_sparms v p dur d) ! 1 = ucast (drop_bit 8 f AND 0xf)"
    "sound (kbd_bell_sparms v p dur d) ! 11 = ucast (t AND 0xff)"
    "sound (kbd_bell_sparms v p dur d) ! 12 = ucast (drop_bit 8 t AND 0xff)"
    unfolding s using len by simp_all
  show ?thesis
    unfolding kbd_bell_gparms_def n join12 join16 f_def [symmetric] t_def [symmetric]
    by (simp add: Let_def)
qed


lemma between_multiples:
  assumes "m * k < F" and "F < m * Suc k"
  shows "F mod m \<noteq> (0::nat)"
proof
  assume "F mod m = 0"
  then have "m dvd F" by (simp add: mod_eq_0_iff_dvd)
  then obtain j where j: "F = m * j" ..
  have "k < j"
  proof (rule ccontr)
    assume "\<not> k < j"
    then have "m * j \<le> m * k" by (intro mult_le_mono2) simp
    with assms(1) show False unfolding j by simp
  qed
  moreover have "j < Suc k"
  proof (rule ccontr)
    assume "\<not> j < Suc k"
    then have "m * Suc k \<le> m * j" by (intro mult_le_mono2) simp
    with assms(2) show False unfolding j by linarith
  qed
  ultimately show False by simp
qed

lemma divisor_low12_nonzero:
  assumes "10 \<le> (c::nat)" and "c \<le> 20000"
  shows "125000 div c mod 4096 \<noteq> 0"
proof -
  consider "c = 10" | "11 \<le> c \<and> c \<le> 15" | "16 \<le> c \<and> c \<le> 30" | "31 \<le> c"
    using assms by linarith
  then show ?thesis
  proof cases
    case 1
    then show ?thesis by simp
  next
    case 2
    then have "125000 div 15 \<le> 125000 div c" and "125000 div c \<le> 125000 div 11"
      by (intro div_le_mono2; simp)+
    then have "4096 * 2 < 125000 div c" and "125000 div c < 4096 * Suc 2" by simp_all
    then show ?thesis by (rule between_multiples)
  next
    case 3
    then have "125000 div 30 \<le> 125000 div c" and "125000 div c \<le> 125000 div 16"
      by (intro div_le_mono2; simp)+
    then have "4096 * 1 < 125000 div c" and "125000 div c < 4096 * Suc 1" by simp_all
    then show ?thesis by (rule between_multiples)
  next
    case 4
    then have "125000 div 20000 \<le> 125000 div c" and "125000 div c \<le> 125000 div 31"
      using assms by (intro div_le_mono2; simp)+
    then have "4096 * 0 < 125000 div c" and "125000 div c < 4096 * Suc 0" by simp_all
    then show ?thesis by (rule between_multiples)
  qed
qed

lemma pitch_nat:
  assumes "31 \<le> (c::nat)" and "c \<le> 20000"
  shows "125000 div c mod 4096 = 125000 div c"
    and "c \<le> 125000 div (125000 div c)"
    and "125000 div (125000 div (125000 div c)) = 125000 div c"
proof -
  let ?F = "125000 div c"
  have "?F \<le> 125000 div 31" using assms by (intro div_le_mono2) simp_all
  then have up: "?F < 4096" by simp
  then show "?F mod 4096 = ?F" by simp
  have "125000 div 20000 \<le> ?F" using assms by (intro div_le_mono2) simp_all
  then have pos: "0 < ?F" by simp
  have "c * ?F \<le> 125000" by simp
  then show ge: "c \<le> 125000 div ?F" using pos by (simp add: less_eq_div_iff_mult_less_eq)
  have "125000 div (125000 div ?F) \<le> ?F"
    using ge assms by (intro div_le_mono2) simp_all
  moreover have "?F \<le> 125000 div (125000 div ?F)"
  proof -
    have "0 < 125000 div ?F" using ge assms by simp
    moreover have "?F * (125000 div ?F) \<le> 125000" by simp
    ultimately show ?thesis by (simp add: less_eq_div_iff_mult_less_eq)
  qed
  ultimately show "125000 div (125000 div ?F) = ?F" by simp
qed

lemma duration_nat:
  assumes "D \<le> (8388::nat)"
  shows "D * 1000 div 128 < 65536"
    and "D * 1000 div 128 * 128 div 1000 \<le> D"
    and "D - 1 \<le> D * 1000 div 128 * 128 div 1000"
proof -
  let ?T = "D * 1000 div 128"
  have "?T \<le> 8388 * 1000 div 128" using assms by (intro div_le_mono) simp
  then show "?T < 65536" by simp
  have le: "?T * 128 \<le> D * 1000" by simp
  then have "?T * 128 div 1000 \<le> D * 1000 div 1000" by (rule div_le_mono)
  then show "?T * 128 div 1000 \<le> D" by simp
  have "?T * 128 + D * 1000 mod 128 = D * 1000" by (rule div_mult_mod_eq)
  moreover have "D * 1000 mod 128 < 128" by simp
  ultimately have "D * 1000 < ?T * 128 + 128" by linarith
  then have "(D - 1) * 1000 \<le> ?T * 128" by (cases D) simp_all
  then show "D - 1 \<le> ?T * 128 div 1000" by (simp add: less_eq_div_iff_mult_less_eq)
qed


lemma unat_clamp:
  "unat (if (if p > 10 then p else 10) > 20000 then 20000
         else (if p > 10 then p else (10 :: 32 word)))
   = min 20000 (max 10 (unat p))"
  by (simp add: word_less_nat_alt min_def max_def)

lemma unat_bellclock_div: "unat (KBDBELLCLOCK div c) = 125000 div unat c"
  by (simp add: KBDBELLCLOCK_def unat_div)

lemma unat_take_bit_12: "unat (take_bit 12 (f :: 32 word)) = unat f mod 4096"
  by (simp add: unsigned_take_bit_eq take_bit_eq_mod unat_mod)

lemma unat_ticks:
  "unat ((dur * 1000) div KBDBELLDURATION :: 32 word)
   = unat dur * 1000 mod 4294967296 div 128"
  by (simp add: KBDBELLDURATION_def unat_div unat_word_ariths)

lemma unat_ticks_back:
  "unat ((take_bit 16 (t :: 32 word) * KBDBELLDURATION) div 1000)
   = (unat t mod 65536) * 128 div 1000"
proof -
  have "unat t mod 65536 < 65536" by simp
  then have "(unat t mod 65536) * 128 < 4294967296" by linarith
  then have "unat (take_bit 16 t * KBDBELLDURATION) = (unat t mod 65536) * 128"
    by (simp add: KBDBELLDURATION_def unat_word_ariths unsigned_take_bit_eq take_bit_eq_mod
        unat_mod)
  then show ?thesis by (simp add: unat_div)
qed

lemma bell_unat:
  assumes len: "length (sound d) = 14"
  shows "\<exists>P D. kbd_bell_gparms (kbd_bell_sparms v p dur d) = Some (0, P, D)
           \<and> unat P = 125000 div (125000 div min 20000 (max 10 (unat p)) mod 4096)
           \<and> unat D = (unat dur * 1000 mod 4294967296 div 128 mod 65536) * 128 div 1000"
proof -
  define c where "c = (if (if p > 10 then p else 10) > 20000 then 20000
                       else (if p > 10 then p else (10 :: 32 word)))"
  define f where "f = KBDBELLCLOCK div c"
  define t where "t = (dur * 1000) div KBDBELLDURATION"
  have C: "unat c = min 20000 (max 10 (unat p))" unfolding c_def by (rule unat_clamp)
  have F: "unat f = 125000 div min 20000 (max 10 (unat p))"
    by (simp add: f_def unat_bellclock_div C)
  have "unat (take_bit 12 f) \<noteq> 0"
    unfolding unat_take_bit_12 F by (rule divisor_low12_nonzero) simp_all
  then have nz: "take_bit 12 f \<noteq> 0" by (simp add: unat_eq_0)
  have g: "kbd_bell_gparms (kbd_bell_sparms v p dur d) =
           Some (0, KBDBELLCLOCK div take_bit 12 f,
                 (take_bit 16 t * KBDBELLDURATION) div 1000)"
    using nz by (simp add: bell_fields [OF len] c_def [symmetric] f_def [symmetric]
        t_def [symmetric] Let_def)
  have P: "unat (KBDBELLCLOCK div take_bit 12 f)
           = 125000 div (125000 div min 20000 (max 10 (unat p)) mod 4096)"
    by (simp only: unat_bellclock_div unat_take_bit_12 F)
  have D: "unat ((take_bit 16 t * KBDBELLDURATION) div 1000)
           = (unat dur * 1000 mod 4294967296 div 128 mod 65536) * 128 div 1000"
    by (simp only: unat_ticks_back t_def unat_ticks)
  from g P D show ?thesis by blast
qed


text \<open>
  C8, as stated, fails. The table keeps 12 bits of the tone divisor and 16 bits of the
  tick count, and the divisor is a truncated quotient: pitch 20000 comes back as 20833
  and duration 10000 as 1611; pitch 999 comes back as 1000; pitch 10, whose divisor
  12500 does not fit 12 bits, comes back as 589.
\<close>

theorem bell_roundtrip_counterexample:
  "kbd_bell_gparms (kbd_bell_sparms 0 20000 10000 kbd0) = Some (0, 20833, 1611)
   \<and> kbd_bell_gparms (kbd_bell_sparms 0 999 1 kbd0) = Some (0, 1000, 0)
   \<and> kbd_bell_gparms (kbd_bell_sparms 0 10 100 kbd0) = Some (0, 589, 99)"
  by (simp add: kbd_bell_gparms_def kbd_bell_sparms_def kbd0_def sound0_def Let_def
      KBDBELLCLOCK_def KBDBELLDURATION_def)

text \<open>
  C8, amended. On a 14-byte table, decoding what was encoded from \<open>(v, p, d)\<close> always
  succeeds, with volume 0. For \<open>d \<le> 8388\<close> (the tick count fits the 16 bits of the
  table) the duration is \<open>(d * 1000 div 128) * 128 div 1000\<close>, which is \<open>d\<close> or
  \<open>d - 1\<close>. For \<open>31 \<le> p \<le> 20000\<close> (the tone divisor fits its 12 bits) the pitch is
  \<open>125000 div (125000 div p)\<close>: at least \<open>p\<close>, with the same tone divisor as \<open>p\<close>,
  and equal to \<open>p\<close> when \<open>p\<close> divides 125000. Every \<open>p \<ge> 20000\<close> decodes to 20833,
  which is what the upper bound 20000 decodes to.
\<close>

theorem bell_codec_roundtrip:
  assumes len: "length (sound d) = 14"
  shows "\<exists>P D. kbd_bell_gparms (kbd_bell_sparms v p dur d) = Some (0, P, D)
     \<and> (unat dur \<le> 8388 \<longrightarrow>
          unat D = unat dur * 1000 div 128 * 128 div 1000
          \<and> unat dur - 1 \<le> unat D \<and> unat D \<le> unat dur)
     \<and> (31 \<le> unat p \<and> unat p \<le> 20000 \<longrightarrow>
          unat P = 125000 div (125000 div unat p) \<and> unat p \<le> unat P
          \<and> 125000 div unat P = 125000 div unat p)
     \<and> (31 \<le> unat p \<and> unat p \<le> 20000 \<and> unat p dvd 125000 \<longrightarrow> P = p)
     \<and> (20000 \<le> unat p \<longrightarrow> P = 20833)"
proof -
  from bell_unat [OF len, of v p dur] obtain P D
    where g: "kbd_bell_gparms (kbd_bell_sparms v p dur d) = Some (0, P, D)"
      and P: "unat P = 125000 div (125000 div min 20000 (max 10 (unat p)) mod 4096)"
      and D: "unat D = (unat dur * 1000 mod 4294967296 div 128 mod 65536) * 128 div 1000"
    by blast
  have d1: "unat D = unat dur * 1000 div 128 * 128 div 1000
          \<and> unat dur - 1 \<le> unat D \<and> unat D \<le> unat dur" if a: "unat dur \<le> 8388"
  proof -
    from a have "unat dur * 1000 < 4294967296" by linarith
    then have "unat dur * 1000 mod 4294967296 = unat dur * 1000" by simp
    moreover have "unat dur * 1000 div 128 mod 65536 = unat dur * 1000 div 128"
      using duration_nat(1) [OF a] by simp
    ultimately have e: "unat D = unat dur * 1000 div 128 * 128 div 1000"
      by (simp only: D)
    show ?thesis
      unfolding e using duration_nat(2,3) [OF a] by blast
  qed
  have p1: "unat P = 125000 div (125000 div unat p) \<and> unat p \<le> unat P
          \<and> 125000 div unat P = 125000 div unat p"
    if a: "31 \<le> unat p \<and> unat p \<le> 20000"
  proof -
    from a have m: "min 20000 (max 10 (unat p)) = unat p" by simp
    from a have b: "31 \<le> unat p" "unat p \<le> 20000" by simp_all
    have e: "unat P = 125000 div (125000 div unat p)"
      unfolding P m by (simp only: pitch_nat(1) [OF b])
    show ?thesis
      unfolding e using pitch_nat(2,3) [OF b] by blast
  qed
  have p2: "P = p" if a: "31 \<le> unat p \<and> unat p \<le> 20000 \<and> unat p dvd 125000"
  proof -
    from a obtain k where k: "125000 = unat p * k" by (auto elim: dvdE)
    from a have pos: "0 < unat p" by simp
    have "0 < k" using k by (cases k) simp_all
    have "125000 div unat p = k" using pos by (simp add: k)
    moreover have "125000 div k = unat p" using \<open>0 < k\<close> by (simp add: k)
    ultimately have "unat P = unat p" using p1 a by simp
    then show ?thesis by (simp add: word_unat_eq_iff)
  qed
  have p3: "P = 20833" if a: "20000 \<le> unat p"
  proof -
    from a have "min 20000 (max 10 (unat p)) = 20000" by simp
    then have "unat P = 20833" unfolding P by simp
    then show ?thesis by (simp add: word_unat_eq_iff)
  qed
  from g d1 p1 p2 p3 show ?thesis by blast
qed

theorem bell_codec_roundtrip_witness:
  "kbd_bell_gparms (kbd_bell_sparms 7 1000 100 kbd0) = Some (0, 1000, 99)
   \<and> kbd_bell_gparms (kbd_bell_sparms 7 999 1 kbd0) = Some (0, 1000, 0)
   \<and> kbd_bell_gparms (kbd_bell_sparms 7 25000 8 kbd0) = Some (0, 20833, 7)"
proof -
  have len: "length (sound kbd0) = 14" by (simp add: kbd0_def sound0_def)
  from bell_codec_roundtrip [OF len, of 7 1000 100] obtain P D
    where g: "kbd_bell_gparms (kbd_bell_sparms 7 1000 100 kbd0) = Some (0, P, D)"
      and D: "unat (100 :: 32 word) \<le> 8388 \<longrightarrow>
                unat D = unat (100 :: 32 word) * 1000 div 128 * 128 div 1000
                \<and> unat (100 :: 32 word) - 1 \<le> unat D \<and> unat D \<le> unat (100 :: 32 word)"
      and P: "31 \<le> unat (1000 :: 32 word) \<and> unat (1000 :: 32 word) \<le> 20000
                \<and> unat (1000 :: 32 word) dvd 125000 \<longrightarrow> P = 1000"
    by blast
  have "(1000 :: nat) dvd 125000" by (rule dvdI [of _ _ 125]) simp
  with P have "P = 1000" by simp
  moreover from D have "unat D = 99" by simp
  then have "D = 99" by (simp add: word_unat_eq_iff)
  ultimately have a: "kbd_bell_gparms (kbd_bell_sparms 7 1000 100 kbd0) = Some (0, 1000, 99)"
    using g by simp
  from bell_codec_roundtrip [OF len, of 7 999 1] obtain P' D'
    where g': "kbd_bell_gparms (kbd_bell_sparms 7 999 1 kbd0) = Some (0, P', D')"
      and D': "unat (1 :: 32 word) \<le> 8388 \<longrightarrow>
                unat D' = unat (1 :: 32 word) * 1000 div 128 * 128 div 1000
                \<and> unat (1 :: 32 word) - 1 \<le> unat D' \<and> unat D' \<le> unat (1 :: 32 word)"
      and P': "31 \<le> unat (999 :: 32 word) \<and> unat (999 :: 32 word) \<le> 20000 \<longrightarrow>
                unat P' = 125000 div (125000 div unat (999 :: 32 word))
                \<and> unat (999 :: 32 word) \<le> unat P'
                \<and> 125000 div unat P' = 125000 div unat (999 :: 32 word)"
    by blast
  from P' have "unat P' = 1000" by simp
  then have "P' = 1000" by (simp add: word_unat_eq_iff)
  moreover from D' have "unat D' = 0" by simp
  then have "D' = 0" by (simp add: unat_eq_0)
  ultimately have b: "kbd_bell_gparms (kbd_bell_sparms 7 999 1 kbd0) = Some (0, 1000, 0)"
    using g' by simp
  from bell_codec_roundtrip [OF len, of 7 25000 8] obtain P'' D''
    where g'': "kbd_bell_gparms (kbd_bell_sparms 7 25000 8 kbd0) = Some (0, P'', D'')"
      and D'': "unat (8 :: 32 word) \<le> 8388 \<longrightarrow>
                unat D'' = unat (8 :: 32 word) * 1000 div 128 * 128 div 1000
                \<and> unat (8 :: 32 word) - 1 \<le> unat D'' \<and> unat D'' \<le> unat (8 :: 32 word)"
      and P'': "20000 \<le> unat (25000 :: 32 word) \<longrightarrow> P'' = 20833"
    by blast
  from P'' have "P'' = 20833" by simp
  moreover from D'' have "unat D'' = 7" by simp
  then have "D'' = 7" by (simp add: word_unat_eq_iff)
  ultimately have c: "kbd_bell_gparms (kbd_bell_sparms 7 25000 8 kbd0) = Some (0, 20833, 7)"
    using g'' by simp
  from a b c show ?thesis by blast
qed


section \<open>kbd_write\<close>

text \<open>
  C9. When no write is pending (\<open>sc_sendp\<close> is null) and the ACIA shows
  \<open>A_TXRDY\<close>, \<open>kbd_write\<close> of one byte returns without reaching either
  \<open>tsleep\<close>: it enables the transmit interrupt, stores the byte in the data register
  and wakes the waiters on \<open>sc_sendp\<close>. \<open>sc_sendp\<close> stays null and \<open>sc_send_cnt\<close>
  keeps its value (0 when nothing was pending).
\<close>

theorem kbd_write_one_byte:
  assumes idle: "sc_sendp (softc d) = None" and rdy: "ac_cs AND A_TXRDY K \<noteq> 0"
  shows "kbd_write K ac_cs [b] 1 d =
           Returned (d\<lparr>softc := (softc d)\<lparr>sc_soft_cs := sc_soft_cs (softc d) OR A_TXINT K\<rparr>,
                       out := out d @ [Acia_cs_store (sc_soft_cs (softc d) OR A_TXINT K),
                                       Acia_da_store b, Wakeup Chan_sc_sendp]\<rparr>)
       \<and> (\<exists>d'. kbd_write K ac_cs [b] 1 d = Returned d' \<and> sc_sendp (softc d') = None
               \<and> sc_send_cnt (softc d') = sc_send_cnt (softc d))"
  using assms by (simp add: kbd_write_def Let_def emit_def)

theorem kbd_write_one_byte_witness:
  "kbd_write ikbd_hdrs 0x02 [0x80] 1 kbd0 =
     Returned (kbd0\<lparr>softc := (softc kbd0)\<lparr>sc_soft_cs := 0x20\<rparr>,
                    out := [Acia_cs_store 0x20, Acia_da_store 0x80, Wakeup Chan_sc_sendp]\<rparr>)"
proof -
  have h: "sc_sendp (softc kbd0) = None" "0x02 AND A_TXRDY ikbd_hdrs \<noteq> 0"
    by (simp_all add: kbd0_def ikbd_hdrs_def)
  have v: "sc_soft_cs (softc kbd0) = 0" "A_TXINT ikbd_hdrs = 0x20" "out kbd0 = []"
    by (simp_all add: kbd0_def ikbd_hdrs_def)
  from kbd_write_one_byte [OF h, of "0x80"] show ?thesis by (simp add: v)
qed

section \<open>kbdioctl\<close>

text \<open>
  C10. \<open>FIOSETOWN\<close> and \<open>TIOCSPGRP\<close> only compare their argument with the ids of
  the opener \<open>ev_io\<close>: \<open>FIOSETOWN\<close> returns 0 when the negated argument is the
  opener's process group or the argument is its pid, \<open>TIOCSPGRP\<close> when the argument is
  its process group, and \<open>EPERM\<close> otherwise. Nothing is stored through \<open>data\<close> and
  the state returned is the state given, whatever the result.
\<close>

theorem kbdioctl_owner_checks_only:
  "kbdioctl K (FIOSETOWN v) d =
     (case ev_io (sc_events (softc d)) of
        None \<Rightarrow> None
      | Some p \<Rightarrow> Some (if - v = p_pgid p \<or> v = p_pid p then OK else EPERM, None, d))
   \<and> kbdioctl K (TIOCSPGRP v) d =
     (case ev_io (sc_events (softc d)) of
        None \<Rightarrow> None
      | Some p \<Rightarrow> Some (if v = p_pgid p then OK else EPERM, None, d))"
  by (simp add: kbdioctl_def split: option.split)


theorem kbdioctl_owner_checks_only_witness:
  "kbdioctl ikbd_hdrs (FIOSETOWN 42) kbd_ev = Some (OK, None, kbd_ev)
   \<and> kbdioctl ikbd_hdrs (FIOSETOWN (- 7)) kbd_ev = Some (OK, None, kbd_ev)
   \<and> kbdioctl ikbd_hdrs (FIOSETOWN 5) kbd_ev = Some (EPERM, None, kbd_ev)
   \<and> kbdioctl ikbd_hdrs (TIOCSPGRP 7) kbd_ev = Some (OK, None, kbd_ev)
   \<and> kbdioctl ikbd_hdrs (TIOCSPGRP 42) kbd_ev = Some (EPERM, None, kbd_ev)"
proof -
  have e: "ev_io (sc_events (softc kbd_ev)) = Some \<lparr>p_pid = 42, p_pgid = 7\<rparr>"
    by (simp add: kbd_ev_def kbd0_def)
  from kbdioctl_owner_checks_only [of ikbd_hdrs 42 kbd_ev]
    kbdioctl_owner_checks_only [of ikbd_hdrs "- 7" kbd_ev]
    kbdioctl_owner_checks_only [of ikbd_hdrs 5 kbd_ev]
    kbdioctl_owner_checks_only [of ikbd_hdrs 7 kbd_ev]
  show ?thesis by (simp add: e)
qed

end
